theory Spec2Isabelle
  imports Main
begin

section \<open>Values of the host language\<close>

text \<open>
  Every value thrown on the paths modelled here is an instance of the host language's
  \<^verbatim>\<open>Error\<close>; only its message is ever read.
\<close>

datatype js_error = Error (message: string)

text \<open>
  The structured values produced by \<^verbatim>\<open>JSON.parse\<close>. Numbers are carried as whole
  numbers (the gateway reports \<^verbatim>\<open>durationMs\<close> in whole milliseconds); fractional
  numbers are floating point and lie outside this development.
\<close>

datatype json =
    JNull
  | JBool bool
  | JNum int
  | JStr string
  | JArr "json list"
  | JObj "(string \<times> json) list"

text \<open>\<^verbatim>\<open>Boolean(v)\<close> on a parsed value.\<close>

fun truthy :: "json \<Rightarrow> bool" where
  "truthy JNull = False"
| "truthy (JBool b) = b"
| "truthy (JNum n) = (n \<noteq> 0)"
| "truthy (JStr s) = (s \<noteq> [])"
| "truthy (JArr _) = True"
| "truthy (JObj _) = True"

text \<open>
  Property access \<^verbatim>\<open>v?.k\<close> for the two keys the program reads (\<^verbatim>\<open>ok\<close>,
  \<^verbatim>\<open>durationMs\<close>): an object yields the value of the last member with that key, every
  other value yields \<^verbatim>\<open>undefined\<close>.
\<close>

fun getProp :: "json \<Rightarrow> string \<Rightarrow> json option" where
  "getProp (JObj kvs) k = map_of (rev kvs) k"
| "getProp _ k = None"

subsection \<open>Decimal rendering of numbers in template strings\<close>

definition digit :: "nat \<Rightarrow> char" where
  "digit d = (''0123456789'' ! d)"

fun showNat :: "nat \<Rightarrow> string" where
  "showNat n = (if n < 10 then [digit n] else showNat (n div 10) @ [digit (n mod 10)])"

declare showNat.simps [simp del]

definition showInt :: "int \<Rightarrow> string" where
  "showInt i = (if i < 0 then CHR ''-'' # showNat (nat (- i)) else showNat (nat i))"

section \<open>Channel credentials: \<^verbatim>\<open>resolveRocketChatAccount\<close>\<close>

text \<open>
  A credential field that is absent, or present and empty, is the empty string: both are
  falsy in the source's \<^verbatim>\<open>a && b && c\<close> tests.
\<close>

record rc_account =
  baseUrl :: string
  userId :: string
  authToken :: string

text \<open>
  \<^verbatim>\<open>channels.rocketchat\<close>: the flat record itself, extended by the optional
  \<^verbatim>\<open>accounts\<close> map (an absent map has no entries).
\<close>

record rocketchat_cfg = rc_account +
  accounts :: "string \<rightharpoonup> rc_account"

record channels_cfg =
  rocketchat :: "rocketchat_cfg option"

record host_cfg =
  channels :: "channels_cfg option"

definition complete :: "'a rc_account_scheme \<Rightarrow> bool" where
  "complete r = (baseUrl r \<noteq> [] \<and> userId r \<noteq> [] \<and> authToken r \<noteq> [])"

definition credentials :: "'a rc_account_scheme \<Rightarrow> rc_account" where
  "credentials r = \<lparr>baseUrl = baseUrl r, userId = userId r, authToken = authToken r\<rparr>"

definition resolveRocketChatAccount :: "host_cfg option \<Rightarrow> rc_account option" where
  "resolveRocketChatAccount cfg =
     (case Option.bind (Option.bind cfg channels) rocketchat of
        None \<Rightarrow> None
      | Some rc \<Rightarrow>
          (let base = (if complete rc then Some (credentials rc) else None);
               acct = accounts rc ''default'';
               resolved = (case acct of
                             Some a \<Rightarrow> if complete a then Some (credentials a) else base
                           | None \<Rightarrow> base)
           in resolved))"

section \<open>The world seen by one tick\<close>

text \<open>
  What the program reads from outside during one tick is gathered in one record: the
  structured-text parser (\<^verbatim>\<open>JSON.parse\<close>), process execution (\<^verbatim>\<open>execFile\<close>,
  promisified: the standard output and standard error on success, an error on a timeout or
  a non-zero exit), URL construction, the HTTP client, the clock and the clock's ISO
  rendering. Each is called at most once per tick with the same arguments, so a function
  of the arguments describes it.
\<close>

record payload =
  text_field :: string
  channel_field :: "string option"
  roomId_field :: "string option"

record request =
  url :: string
  x_user_id :: string
  x_auth_token :: string
  body :: payload

record response =
  res_ok :: bool
  res_status :: nat
  res_text :: "js_error + string"

record env =
  JSON_parse :: "string \<Rightarrow> js_error + json"
  execFile :: "string \<Rightarrow> string list \<Rightarrow> js_error + string \<times> string"
  new_URL :: "string \<Rightarrow> string \<Rightarrow> js_error + string"
  fetch :: "request \<Rightarrow> js_error + response"
  Date_now :: int
  toISOString :: string

text \<open>The calls a tick makes to its collaborators, in order.\<close>

datatype event =
    LogInfo string
  | LogWarn string
  | DoAlert string
  | ExecFile string "string list"
  | Fetch request

section \<open>Health prober\<close>

subsection \<open>\<^verbatim>\<open>extractLastJsonObject\<close>\<close>

text \<open>
  \<^verbatim>\<open>text.indexOf(c)\<close> and \<^verbatim>\<open>text.lastIndexOf(c)\<close>; the source's \<^verbatim>\<open>-1\<close> is
  \<open>None\<close>.
\<close>

fun indexOf :: "char \<Rightarrow> string \<Rightarrow> nat option" where
  "indexOf c [] = None"
| "indexOf c (x # xs) = (if x = c then Some 0 else map_option Suc (indexOf c xs))"

fun lastIndexOf :: "char \<Rightarrow> string \<Rightarrow> nat option" where
  "lastIndexOf c [] = None"
| "lastIndexOf c (x # xs) =
     (case lastIndexOf c xs of
        Some i \<Rightarrow> Some (Suc i)
      | None \<Rightarrow> if x = c then Some 0 else None)"

text \<open>\<^verbatim>\<open>text.slice(s, e)\<close> for \<open>s \<le> e \<le> length text\<close>.\<close>

definition slice :: "string \<Rightarrow> nat \<Rightarrow> nat \<Rightarrow> string" where
  "slice text s e = take (e - s) (drop s text)"

definition extractLastJsonObject ::
  "(string \<Rightarrow> js_error + json) \<Rightarrow> string \<Rightarrow> js_error + json" where
  "extractLastJsonObject parse text =
     (case lastIndexOf CHR ''{'' text of
        None \<Rightarrow> Inl (Error ''no JSON object found in output'')
      | Some start \<Rightarrow>
          (case parse (drop start text) of
             Inr v \<Rightarrow> Inr v
           | Inl _ \<Rightarrow>
               (case (indexOf CHR ''{'' text, lastIndexOf CHR ''}'' text) of
                  (Some s2, Some e2) \<Rightarrow>
                    if e2 > s2 then parse (slice text s2 (e2 + 1))
                    else Inl (Error ''failed to parse JSON output'')
                | _ \<Rightarrow> Inl (Error ''failed to parse JSON output''))))"

subsection \<open>\<^verbatim>\<open>runGatewayHealth\<close> and \<^verbatim>\<open>checkHealth\<close>\<close>

definition health_args :: "string list" where
  "health_args = [''gateway'', ''health'', ''--json'']"

definition runGatewayHealth :: "env \<Rightarrow> string \<Rightarrow> js_error + string \<times> json" where
  "runGatewayHealth w bin =
     (case execFile w bin health_args of
        Inl err \<Rightarrow> Inl err
      | Inr (stdout, stderr) \<Rightarrow>
          (case extractLastJsonObject (JSON_parse w) (stdout @ [CHR 0x0A] @ stderr) of
             Inl err \<Rightarrow> Inl err
           | Inr js \<Rightarrow> Inr (bin, js)))"

record health =
  ok :: bool
  meta :: string
  raw :: json

definition health_of :: "string \<Rightarrow> json \<Rightarrow> health" where
  "health_of bin js =
     \<lparr>ok = (case getProp js ''ok'' of Some v \<Rightarrow> truthy v | None \<Rightarrow> False),
      meta = bin @ (case getProp js ''durationMs'' of
                      Some (JNum d) \<Rightarrow> '' durationMs='' @ showInt d
                    | _ \<Rightarrow> []),
      raw = js\<rparr>"

text \<open>
  The loop of \<^verbatim>\<open>checkHealth\<close> over the backends still to try, with the loop's
  \<^verbatim>\<open>lastErr\<close>. The result comes with the process invocations made.
\<close>

fun checkHealth_loop ::
  "env \<Rightarrow> string list \<Rightarrow> js_error option \<Rightarrow> (js_error + health) \<times> event list" where
  "checkHealth_loop w [] lastErr =
     (Inl (case lastErr of Some e \<Rightarrow> e | None \<Rightarrow> Error ''health failed''), [])"
| "checkHealth_loop w (bin # bins) lastErr =
     (case runGatewayHealth w bin of
        Inr (b, js) \<Rightarrow> (Inr (health_of b js), [ExecFile bin health_args])
      | Inl err \<Rightarrow>
          (let (r, evs) = checkHealth_loop w bins (Some err)
           in (r, ExecFile bin health_args # evs)))"

definition backends :: "string list" where
  "backends = [''clawdbot'', ''openclaw'']"

definition checkHealth :: "env \<Rightarrow> (js_error + health) \<times> event list" where
  "checkHealth w = checkHealth_loop w backends None"

section \<open>A reference instance of \<^verbatim>\<open>JSON.parse\<close>\<close>

text \<open>
  \<^verbatim>\<open>JSON.parse\<close> belongs to the host language, not to the program, and the prober
  takes it from the world record. The recogniser below instantiates it where a statement
  is evaluated on a concrete text. It follows the JSON grammar (ECMA-404) over 8-bit
  characters: optional white space, objects, arrays, strings with their escapes, the three
  literals and integer numbers. A number with a fraction or an exponent, and a four-digit
  hexadecimal escape of a code unit above 255, are outside the values carried here and are
  reported as a syntax error; no text evaluated below contains one. Recursion is on a
  fuel argument that \<open>json_parse\<close> sets above the length of the text. The message of
  the syntax error depends on the engine; one fixed message stands for it.
\<close>

definition is_ws :: "char \<Rightarrow> bool" where
  "is_ws c = (c = CHR '' '' \<or> c = CHR 0x09 \<or> c = CHR 0x0A \<or> c = CHR 0x0D)"

definition skip_ws :: "string \<Rightarrow> string" where
  "skip_ws = dropWhile is_ws"

definition is_digit :: "char \<Rightarrow> bool" where
  "is_digit c = (c \<in> set ''0123456789'')"

definition digit_val :: "char \<Rightarrow> nat" where
  "digit_val c = of_char c - 48"

definition hex_val :: "char \<Rightarrow> nat option" where
  "hex_val c =
     (if c \<in> set ''0123456789'' then Some (of_char c - 48)
      else if c \<in> set ''abcdef'' then Some (of_char c - 87)
      else if c \<in> set ''ABCDEF'' then Some (of_char c - 55)
      else None)"

definition unescape :: "char \<Rightarrow> char option" where
  "unescape e =
     (if e = CHR 0x22 then Some (CHR 0x22)
      else if e = CHR 0x5C then Some (CHR 0x5C)
      else if e = CHR ''/'' then Some (CHR ''/'')
      else if e = CHR ''b'' then Some (CHR 0x08)
      else if e = CHR ''f'' then Some (CHR 0x0C)
      else if e = CHR ''n'' then Some (CHR 0x0A)
      else if e = CHR ''r'' then Some (CHR 0x0D)
      else if e = CHR ''t'' then Some (CHR 0x09)
      else None)"

definition hex4 :: "string \<Rightarrow> (char \<times> string) option" where
  "hex4 s =
     (case s of
        a # b # c # d # r \<Rightarrow>
          (case (hex_val a, hex_val b, hex_val c, hex_val d) of
             (Some x, Some y, Some z, Some u) \<Rightarrow>
               if x = 0 \<and> y = 0 then Some (char_of (16 * z + u), r) else None
           | _ \<Rightarrow> None)
      | _ \<Rightarrow> None)"

fun parse_chars :: "string \<Rightarrow> (string \<times> string) option" where
  "parse_chars [] = None"
| "parse_chars [c] = (if c = CHR 0x22 then Some ([], []) else None)"
| "parse_chars (c # e # cs) =
     (if c = CHR 0x22 then Some ([], e # cs)
      else if c = CHR 0x5C then
        (if e = CHR ''u'' then
           (case hex4 cs of
              None \<Rightarrow> None
            | Some (d, r) \<Rightarrow> map_option (\<lambda>(s, r'). (d # s, r')) (parse_chars (drop 4 cs)))
         else
           (case unescape e of
              None \<Rightarrow> None
            | Some d \<Rightarrow> map_option (\<lambda>(s, r'). (d # s, r')) (parse_chars cs)))
      else if (of_char c :: nat) < 32 then None
      else map_option (\<lambda>(s, r'). (c # s, r')) (parse_chars (e # cs)))"

fun parse_digits :: "nat \<Rightarrow> string \<Rightarrow> nat \<times> string" where
  "parse_digits acc [] = (acc, [])"
| "parse_digits acc (c # cs) =
     (if is_digit c then parse_digits (10 * acc + digit_val c) cs else (acc, c # cs))"

definition parse_nat :: "string \<Rightarrow> (nat \<times> string) option" where
  "parse_nat s =
     (case s of
        [] \<Rightarrow> None
      | c # cs \<Rightarrow>
          if c = CHR ''0'' then Some (0, cs)
          else if is_digit c then Some (parse_digits 0 s)
          else None)"

definition parse_number :: "string \<Rightarrow> (int \<times> string) option" where
  "parse_number s =
     (case (case s of
              [] \<Rightarrow> None
            | c # cs \<Rightarrow> if c = CHR ''-'' then map_option (\<lambda>(n, r). (- int n, r)) (parse_nat cs)
                        else map_option (\<lambda>(n, r). (int n, r)) (parse_nat s)) of
        None \<Rightarrow> None
      | Some (i, r) \<Rightarrow>
          (case r of
             [] \<Rightarrow> Some (i, r)
           | d # _ \<Rightarrow> if d \<in> set ''.eE'' then None else Some (i, r)))"

fun parse_value :: "nat \<Rightarrow> string \<Rightarrow> (json \<times> string) option"
  and parse_members :: "nat \<Rightarrow> string \<Rightarrow> ((string \<times> json) list \<times> string) option"
  and parse_elements :: "nat \<Rightarrow> string \<Rightarrow> (json list \<times> string) option" where
  "parse_value 0 s = None"
| "parse_value (Suc n) s =
     (case s of
        [] \<Rightarrow> None
      | c # cs \<Rightarrow>
          if c = CHR ''{'' then
            (case skip_ws cs of
               [] \<Rightarrow> None
             | d # r \<Rightarrow> if d = CHR ''}'' then Some (JObj [], r)
                        else map_option (\<lambda>(m, r'). (JObj m, r')) (parse_members n (d # r)))
          else if c = CHR ''['' then
            (case skip_ws cs of
               [] \<Rightarrow> None
             | d # r \<Rightarrow> if d = CHR '']'' then Some (JArr [], r)
                        else map_option (\<lambda>(m, r'). (JArr m, r')) (parse_elements n (d # r)))
          else if c = CHR 0x22 then map_option (\<lambda>(m, r'). (JStr m, r')) (parse_chars cs)
          else if take 4 s = ''true'' then Some (JBool True, drop 4 s)
          else if take 5 s = ''false'' then Some (JBool False, drop 5 s)
          else if take 4 s = ''null'' then Some (JNull, drop 4 s)
          else map_option (\<lambda>(m, r'). (JNum m, r')) (parse_number s))"
| "parse_members 0 s = None"
| "parse_members (Suc n) s =
     (case s of
        [] \<Rightarrow> None
      | c # cs \<Rightarrow>
          if c \<noteq> CHR 0x22 then None
          else
            (case parse_chars cs of
               None \<Rightarrow> None
             | Some (k, r) \<Rightarrow>
                 (case skip_ws r of
                    [] \<Rightarrow> None
                  | d # r1 \<Rightarrow>
                      if d \<noteq> CHR '':'' then None
                      else
                        (case parse_value n (skip_ws r1) of
                           None \<Rightarrow> None
                         | Some (v, r2) \<Rightarrow>
                             (case skip_ws r2 of
                                [] \<Rightarrow> None
                              | e # r3 \<Rightarrow>
                                  if e = CHR ''}'' then Some ([(k, v)], r3)
                                  else if e = CHR '','' then
                                    map_option (\<lambda>(m, r'). ((k, v) # m, r'))
                                      (parse_members n (skip_ws r3))
                                  else None)))))"
| "parse_elements 0 s = None"
| "parse_elements (Suc n) s =
     (case parse_value n s of
        None \<Rightarrow> None
      | Some (v, r2) \<Rightarrow>
          (case skip_ws r2 of
             [] \<Rightarrow> None
           | e # r3 \<Rightarrow>
               if e = CHR '']'' then Some ([v], r3)
               else if e = CHR '','' then
                 map_option (\<lambda>(m, r'). (v # m, r')) (parse_elements n (skip_ws r3))
               else None))"

definition json_parse :: "string \<Rightarrow> js_error + json" where
  "json_parse s =
     (case parse_value (Suc (length s)) (skip_ws s) of
        None \<Rightarrow> Inl (Error ''SyntaxError'')
      | Some (v, r) \<Rightarrow> if skip_ws r = [] then Inr v else Inl (Error ''SyntaxError''))"

section \<open>Watchdog configuration and state\<close>

text \<open>
  The plugin configuration as the service receives it. The seconds and the threshold are
  whole numbers, so \<^verbatim>\<open>Math.round(x * 1000)\<close> is \<open>x * 1000\<close>. The sub-records may be
  absent: the source reads them with \<^verbatim>\<open>?.\<close> and \<^verbatim>\<open>??\<close>.
\<close>

record alert_cfg =
  alert_channel :: "string option"
  alert_to :: "string option"

record recover_cfg =
  recover_enabled :: bool
  action :: string

record plugin_cfg =
  enabled :: bool
  intervalSec :: int
  failureThreshold :: int
  cooldownSec :: int
  alert :: "alert_cfg option"
  recover :: "recover_cfg option"

text \<open>The variables of the closure of \<^verbatim>\<open>createWatchdogService\<close>.\<close>

record wd_state =
  timer :: "nat option"
  failures :: nat
  lastRecoverAt :: int
  lastStateOk :: "bool option"

definition init_state :: wd_state where
  "init_state = \<lparr>timer = None, failures = 0, lastRecoverAt = 0, lastStateOk = None\<rparr>"

definition intervalMs :: "plugin_cfg \<Rightarrow> int" where
  "intervalMs pcfg = intervalSec pcfg * 1000"

definition cooldownMs :: "plugin_cfg \<Rightarrow> int" where
  "cooldownMs pcfg = cooldownSec pcfg * 1000"

definition alertChannel :: "plugin_cfg \<Rightarrow> string" where
  "alertChannel pcfg =
     (case Option.bind (alert pcfg) alert_channel of Some c \<Rightarrow> c | None \<Rightarrow> ''rocketchat'')"

definition alertTo :: "plugin_cfg \<Rightarrow> string" where
  "alertTo pcfg = (case Option.bind (alert pcfg) alert_to of Some t \<Rightarrow> t | None \<Rightarrow> [])"

section \<open>Alert sink\<close>

definition startsWith_hash :: "string \<Rightarrow> bool" where
  "startsWith_hash to = (case to of [] \<Rightarrow> False | c # _ \<Rightarrow> c = CHR ''#'')"

definition sendRocketChat ::
  "env \<Rightarrow> host_cfg option \<Rightarrow> string \<Rightarrow> string \<Rightarrow> (js_error + unit) \<times> event list" where
  "sendRocketChat w cfg to text =
     (case resolveRocketChatAccount cfg of
        None \<Rightarrow> (Inl (Error ''watchdog: Rocket.Chat not configured (channels.rocketchat.*)''), [])
      | Some acct \<Rightarrow>
          (case new_URL w ''/api/v1/chat.postMessage'' (baseUrl acct) of
             Inl e \<Rightarrow> (Inl e, [])
           | Inr u \<Rightarrow>
               (let req = \<lparr>url = u, x_user_id = userId acct, x_auth_token = authToken acct,
                           body = \<lparr>text_field = text,
                                   channel_field = (if startsWith_hash to then Some to else None),
                                   roomId_field = (if startsWith_hash to then None else Some to)\<rparr>\<rparr>
                in case fetch w req of
                     Inl e \<Rightarrow> (Inl e, [Fetch req])
                   | Inr res \<Rightarrow>
                       if res_ok res then (Inr (), [Fetch req])
                       else (Inl (Error (''watchdog: Rocket.Chat send failed ''
                                         @ showNat (res_status res) @ '': ''
                                         @ (case res_text res of Inr b \<Rightarrow> b | Inl _ \<Rightarrow> []))),
                             [Fetch req]))))"

text \<open>
  \<^verbatim>\<open>doAlert\<close>. The trace starts with the call itself, so that a trace shows which
  alerts a tick raised, delivered or not.
\<close>

definition doAlert ::
  "env \<Rightarrow> host_cfg option \<Rightarrow> plugin_cfg \<Rightarrow> string \<Rightarrow> (js_error + unit) \<times> event list" where
  "doAlert w cfg pcfg text =
     (if alertTo pcfg = [] then (Inr (), [DoAlert text, LogInfo text])
      else if alertChannel pcfg \<noteq> ''rocketchat'' then
        (Inr (), [DoAlert text,
                  LogWarn (''watchdog: unsupported alert.channel='' @ alertChannel pcfg
                           @ ''; logging only''),
                  LogInfo text])
      else (case sendRocketChat w cfg (alertTo pcfg) text of (r, evs) \<Rightarrow> (r, DoAlert text # evs)))"

definition formatStatus :: "string \<Rightarrow> bool \<Rightarrow> string \<Rightarrow> string \<Rightarrow> string" where
  "formatStatus name isOk m ts =
     ''watchdog: '' @ name @ '' '' @ (if isOk then ''OK'' else ''DOWN'')
     @ (if m \<noteq> [] then '' ('' @ m @ '')'' else []) @ '' @ '' @ ts"

section \<open>Watchdog state machine: \<^verbatim>\<open>tick\<close>\<close>

text \<open>The \<^verbatim>\<open>try\<close>/\<^verbatim>\<open>catch\<close> at the head of the tick: the outcome and its detail.\<close>

definition probe :: "env \<Rightarrow> (bool \<times> string) \<times> event list" where
  "probe w =
     (case checkHealth w of
        (Inr h, evs) \<Rightarrow> ((ok h, meta h), evs)
      | (Inl err, evs) \<Rightarrow> ((False, message err), evs))"

definition restart_args :: "string list" where
  "restart_args = [''gateway'', ''restart'']"

text \<open>The body of the \<^verbatim>\<open>try\<close> block of the recovery: the recovery executor.\<close>

definition runRecover :: "env \<Rightarrow> string \<Rightarrow> (js_error + unit) \<times> event list" where
  "runRecover w act =
     (if act = ''gateway-restart'' then
        (case execFile w ''clawdbot'' restart_args of
           Inl e \<Rightarrow> (Inl e, [ExecFile ''clawdbot'' restart_args])
         | Inr _ \<Rightarrow> (Inr (), [ExecFile ''clawdbot'' restart_args]))
      else (Inl (Error (''unknown recover.action: '' @ act)), []))"

text \<open>The three template strings of the tick, named.\<close>

definition downDetail :: "nat \<Rightarrow> string \<Rightarrow> string" where
  "downDetail n m = ''failures='' @ showNat n @ (if m \<noteq> [] then '': '' @ m else [])"

definition attemptingText :: "string \<Rightarrow> nat \<Rightarrow> string" where
  "attemptingText act n =
     ''watchdog: attempting recovery: '' @ act @ '' (failures='' @ showNat n @ '')''"

definition recoveryFailedText :: "js_error \<Rightarrow> string" where
  "recoveryFailedText err = ''watchdog: recovery failed: '' @ message err"

text \<open>
  A tick yields the state it leaves, the trace of its calls, and \<open>None\<close> when the
  promise of the tick is fulfilled or \<open>Some e\<close> when it is rejected with \<open>e\<close>.
\<close>

type_synonym tick_result = "wd_state \<times> event list \<times> js_error option"

definition recovery :: "env \<Rightarrow> host_cfg option \<Rightarrow> plugin_cfg \<Rightarrow> wd_state \<Rightarrow> tick_result" where
  "recovery w cfg pcfg s =
     (case recover pcfg of
        None \<Rightarrow> (s, [], None)
      | Some rc \<Rightarrow>
          if recover_enabled rc \<and> int (failures s) \<ge> failureThreshold pcfg then
            (let now = Date_now w in
             if now - lastRecoverAt s < cooldownMs pcfg then (s, [], None)
             else
               (let s' = s\<lparr>lastRecoverAt := now\<rparr> in
                case doAlert w cfg pcfg (attemptingText (action rc) (failures s')) of
                  (Inl e, evs) \<Rightarrow> (s', evs, Some e)
                | (Inr _, evs) \<Rightarrow>
                    (case runRecover w (action rc) of
                       (Inr _, evs2) \<Rightarrow> (s', evs @ evs2, None)
                     | (Inl err, evs2) \<Rightarrow>
                         (case doAlert w cfg pcfg (recoveryFailedText err) of
                            (Inl e, evs3) \<Rightarrow> (s', evs @ evs2 @ evs3, Some e)
                          | (Inr _, evs3) \<Rightarrow> (s', evs @ evs2 @ evs3, None)))))
          else (s, [], None))"

definition tick :: "env \<Rightarrow> host_cfg option \<Rightarrow> plugin_cfg \<Rightarrow> wd_state \<Rightarrow> tick_result" where
  "tick w cfg pcfg s =
     (case probe w of
        ((isOk, m), evs0) \<Rightarrow>
          if isOk then
            (case (if lastStateOk s = Some False
                   then doAlert w cfg pcfg (formatStatus ''gateway'' True [] (toISOString w))
                   else (Inr (), [])) of
               (Inl e, evs) \<Rightarrow> (s, evs0 @ evs, Some e)
             | (Inr _, evs) \<Rightarrow> (s\<lparr>failures := 0, lastStateOk := Some True\<rparr>, evs0 @ evs, None))
          else
            (let s1 = s\<lparr>failures := failures s + 1, lastStateOk := Some False\<rparr> in
             case (if failures s1 = 1 \<or> int (failures s1) = failureThreshold pcfg
                   then doAlert w cfg pcfg
                          (formatStatus ''gateway'' False (downDetail (failures s1) m)
                             (toISOString w))
                   else (Inr (), [])) of
               (Inl e, evs) \<Rightarrow> (s1, evs0 @ evs, Some e)
             | (Inr _, evs) \<Rightarrow>
                 (case recovery w cfg pcfg s1 of
                    (s2, evs2, r) \<Rightarrow> (s2, evs0 @ evs @ evs2, r))))"

text \<open>
  Successive ticks, one world per tick, each tick starting in the state the previous one
  left (ticks that do not overlap). The result lists every tick's trace and completion.
\<close>

fun run ::
  "host_cfg option \<Rightarrow> plugin_cfg \<Rightarrow> env list \<Rightarrow> wd_state
     \<Rightarrow> wd_state \<times> (event list \<times> js_error option) list" where
  "run cfg pcfg [] s = (s, [])"
| "run cfg pcfg (w # ws) s =
     (case tick w cfg pcfg s of
        (s', evs, r) \<Rightarrow>
          (case run cfg pcfg ws s' of (s'', rs) \<Rightarrow> (s'', (evs, r) # rs)))"

section \<open>Scheduler: \<^verbatim>\<open>start\<close> and \<^verbatim>\<open>stop\<close>\<close>

text \<open>
  The service together with the interval timers of the host runtime: \<open>armed\<close> holds the
  handles of the intervals that still fire, \<open>fresh\<close> is the handle the next
  \<^verbatim>\<open>setInterval\<close> returns. Every armed interval runs a tick each period.
\<close>

record runtime =
  service :: wd_state
  armed :: "nat set"
  fresh :: nat

datatype sched_event =
    Log string
  | TickNow
  | SetInterval nat int
  | ClearInterval nat

definition init_runtime :: runtime where
  "init_runtime = \<lparr>service = init_state, armed = {}, fresh = 0\<rparr>"

definition start :: "plugin_cfg option \<Rightarrow> runtime \<Rightarrow> runtime \<times> sched_event list" where
  "start pluginConfig rt =
     (case pluginConfig of
        None \<Rightarrow> (rt, [])
      | Some pcfg \<Rightarrow>
          if \<not> enabled pcfg then (rt, [])
          else
            (let h = fresh rt in
             (rt\<lparr>service := (service rt)\<lparr>timer := Some h\<rparr>,
                 armed := insert h (armed rt),
                 fresh := Suc h\<rparr>,
              [Log (''watchdog: started (interval='' @ showInt (intervalSec pcfg)
                    @ ''s threshold='' @ showInt (failureThreshold pcfg)
                    @ '' recover=''
                    @ (if (case recover pcfg of Some rc \<Rightarrow> recover_enabled rc | None \<Rightarrow> False)
                       then ''on'' else ''off'') @ '')''),
               TickNow,
               SetInterval h (intervalMs pcfg)])))"

definition stop :: "runtime \<Rightarrow> runtime \<times> sched_event list" where
  "stop rt =
     (case timer (service rt) of
        Some h \<Rightarrow>
          (rt\<lparr>service := (service rt)\<lparr>timer := None\<rparr>, armed := armed rt - {h}\<rparr>,
           [ClearInterval h])
      | None \<Rightarrow> (rt\<lparr>service := (service rt)\<lparr>timer := None\<rparr>\<rparr>, []))"

text \<open>The lifecycle calls a host can make, and a sequence of them.\<close>

datatype lifecycle = Start | Stop

fun lifecycle_step :: "plugin_cfg option \<Rightarrow> lifecycle \<Rightarrow> runtime \<Rightarrow> runtime" where
  "lifecycle_step pluginConfig Start rt = fst (start pluginConfig rt)"
| "lifecycle_step pluginConfig Stop rt = fst (stop rt)"

definition lifecycle_run :: "plugin_cfg option \<Rightarrow> lifecycle list \<Rightarrow> runtime \<Rightarrow> runtime" where
  "lifecycle_run pluginConfig calls rt = fold (lifecycle_step pluginConfig) calls rt"

section \<open>Reading a trace\<close>

definition has_prefix :: "string \<Rightarrow> string \<Rightarrow> bool" where
  "has_prefix p t = (take (length p) t = p)"

text \<open>
  The status alerts are the texts built by \<^verbatim>\<open>formatStatus\<close> for the gateway; the
  recovery sequence raises its own two kinds of alert.
\<close>

fun is_status_alert :: "event \<Rightarrow> bool" where
  "is_status_alert (DoAlert t) = has_prefix ''watchdog: gateway '' t"
| "is_status_alert _ = False"

fun is_recovery_attempt :: "event \<Rightarrow> bool" where
  "is_recovery_attempt (DoAlert t) = has_prefix ''watchdog: attempting recovery: '' t"
| "is_recovery_attempt _ = False"

fun is_fetch :: "event \<Rightarrow> bool" where
  "is_fetch (Fetch _) = True"
| "is_fetch _ = False"

definition status_alerts :: "event list \<Rightarrow> event list" where
  "status_alerts evs = filter is_status_alert evs"

definition attempted :: "event list \<Rightarrow> bool" where
  "attempted evs = (filter is_recovery_attempt evs \<noteq> [])"

definition restart_invoked :: "event list \<Rightarrow> bool" where
  "restart_invoked evs = (ExecFile ''clawdbot'' restart_args \<in> set evs)"

text \<open>The probe outcome a world gives, and whether a tick ran to completion.\<close>

definition healthy :: "env \<Rightarrow> bool" where
  "healthy w = fst (fst (probe w))"

definition completed :: "tick_result \<Rightarrow> bool" where
  "completed r = (snd (snd r) = None)"

text \<open>The number of unhealthy outcomes at the end of a sequence of outcomes.\<close>

definition trailing_failures :: "bool list \<Rightarrow> nat" where
  "trailing_failures outcomes = length (takeWhile Not (rev outcomes))"

section \<open>Concrete inputs\<close>

text \<open>Channel configurations.\<close>

definition ex_flat :: rc_account where
  "ex_flat = \<lparr>baseUrl = ''https://flat.example'', userId = ''uflat'', authToken = ''tflat''\<rparr>"

definition ex_default :: rc_account where
  "ex_default =
     \<lparr>baseUrl = ''https://default.example'', userId = ''udef'', authToken = ''tdef''\<rparr>"

definition ex_rc_both :: rocketchat_cfg where
  "ex_rc_both =
     \<lparr>baseUrl = ''https://flat.example'', userId = ''uflat'', authToken = ''tflat'',
      accounts = [''default'' \<mapsto> ex_default]\<rparr>"

definition ex_cfg_both :: "host_cfg option" where
  "ex_cfg_both = Some \<lparr>channels = Some \<lparr>rocketchat = Some ex_rc_both\<rparr>\<rparr>"

text \<open>
  Worlds: a world is given by what the two command-line backends and the restart command
  do, what the HTTP client answers, and the clock.
\<close>

definition ex_world ::
  "(string \<Rightarrow> string list \<Rightarrow> js_error + string \<times> string) \<Rightarrow> (request \<Rightarrow> js_error + response)
     \<Rightarrow> int \<Rightarrow> env" where
  "ex_world exec http now =
     \<lparr>JSON_parse = json_parse, execFile = exec, new_URL = (\<lambda>path base. Inr (base @ path)),
      fetch = http, Date_now = now, toISOString = ''2026-01-01T00:00:00.000Z''\<rparr>"

definition exec_down :: "string \<Rightarrow> string list \<Rightarrow> js_error + string \<times> string" where
  "exec_down bin args = Inl (Error (''spawn '' @ bin @ '' ENOENT''))"

definition http_ok :: "request \<Rightarrow> js_error + response" where
  "http_ok req = Inr \<lparr>res_ok = True, res_status = 200, res_text = Inr []\<rparr>"

definition pcfg_of ::
  "int \<Rightarrow> int \<Rightarrow> string option \<Rightarrow> string \<Rightarrow> bool \<Rightarrow> string \<Rightarrow> plugin_cfg" where
  "pcfg_of thr cool chan to rec act =
     \<lparr>enabled = True, intervalSec = 60, failureThreshold = thr, cooldownSec = cool,
      alert = Some \<lparr>alert_channel = chan, alert_to = Some to\<rparr>,
      recover = Some \<lparr>recover_enabled = rec, action = act\<rparr>\<rparr>"

section \<open>Lifecycle discipline\<close>

text \<open>
  A sequence of lifecycle calls in which \<^verbatim>\<open>start\<close> is never called twice without a
  \<^verbatim>\<open>stop\<close> in between; \<^verbatim>\<open>stop\<close> may come at any point and any number of times.
  The flag tells whether a \<^verbatim>\<open>start\<close> is pending.
\<close>

fun well_paired :: "bool \<Rightarrow> lifecycle list \<Rightarrow> bool" where
  "well_paired started [] = True"
| "well_paired started (Start # cs) = (\<not> started \<and> well_paired True cs)"
| "well_paired started (Stop # cs) = well_paired False cs"

text \<open>Every armed interval is the one whose handle the timer slot holds.\<close>

definition owned :: "bool \<Rightarrow> runtime \<Rightarrow> bool" where
  "owned started rt =
     (armed rt \<subseteq> set_option (timer (service rt)) \<and> (started \<or> timer (service rt) = None))"

section \<open>The two extractions of the output parser\<close>

text \<open>
  The two texts the parser may hand to \<^verbatim>\<open>JSON.parse\<close>, named after their description:
  the text from the last opening brace to the end (the strict, trailing candidate), and
  the text from the first opening brace to the last closing brace when that one comes
  later (the fallback candidate). \<open>extractLastJsonObject\<close> above is written from the
  source; the lemma \<open>extract_cases\<close> below relates it to these.
\<close>

definition strict_candidate :: "string \<Rightarrow> string option" where
  "strict_candidate text = map_option (\<lambda>i. drop i text) (lastIndexOf CHR ''{'' text)"

definition fallback_candidate :: "string \<Rightarrow> string option" where
  "fallback_candidate text =
     (case (indexOf CHR ''{'' text, lastIndexOf CHR ''}'' text) of
        (Some s2, Some e2) \<Rightarrow> if e2 > s2 then Some (slice text s2 (e2 + 1)) else None
      | _ \<Rightarrow> None)"

section \<open>Reading a tick\<close>

text \<open>
  Names for what the statements about \<open>tick\<close> speak of: the state an unhealthy and a
  healthy outcome leave, the two status texts, the condition of the status alert on an
  unhealthy outcome, and the gate of the recovery (evaluated, as in the source, on the
  state that already counts the current failure).
\<close>

definition after_failure :: "wd_state \<Rightarrow> wd_state" where
  "after_failure s = s\<lparr>failures := failures s + 1, lastStateOk := Some False\<rparr>"

definition after_success :: "wd_state \<Rightarrow> wd_state" where
  "after_success s = s\<lparr>failures := 0, lastStateOk := Some True\<rparr>"

definition okText :: "env \<Rightarrow> string" where
  "okText w = formatStatus ''gateway'' True [] (toISOString w)"

definition downText :: "env \<Rightarrow> nat \<Rightarrow> string" where
  "downText w n =
     formatStatus ''gateway'' False (downDetail n (snd (fst (probe w)))) (toISOString w)"

definition alert_due :: "plugin_cfg \<Rightarrow> wd_state \<Rightarrow> bool" where
  "alert_due pcfg s = (failures s + 1 = 1 \<or> int (failures s + 1) = failureThreshold pcfg)"

definition recovery_due :: "plugin_cfg \<Rightarrow> wd_state \<Rightarrow> int \<Rightarrow> bool" where
  "recovery_due pcfg s now =
     (case recover pcfg of
        None \<Rightarrow> False
      | Some rc \<Rightarrow>
          recover_enabled rc \<and> failureThreshold pcfg \<le> int (failures s)
          \<and> cooldownMs pcfg \<le> now - lastRecoverAt s)"

fun is_alert :: "event \<Rightarrow> bool" where
  "is_alert (DoAlert t) = True"
| "is_alert _ = False"

section \<open>Runs and their inputs\<close>

text \<open>Every tick of a run whose probe outcome is healthy ran to completion.\<close>

definition healthy_completed :: "env list \<Rightarrow> (event list \<times> js_error option) list \<Rightarrow> bool" where
  "healthy_completed ws rs = list_all (\<lambda>(w, r). healthy w \<longrightarrow> snd r = None) (zip ws rs)"

text \<open>
  More concrete inputs. A gateway that answers the first backend with a banner followed by
  its health object, against the one of \<open>exec_down\<close> where neither backend can be
  spawned; a configuration whose destination is set while the host configuration has no
  channel credentials, and one that only logs.
\<close>

definition exec_up :: "string \<Rightarrow> string list \<Rightarrow> js_error + string \<times> string" where
  \<open>exec_up bin args =
     (if args = health_args then Inr (''Gateway doctor v1 {"ok":true,"durationMs":12}'', [])
      else Inr ([], []))\<close>

definition w_down :: "int \<Rightarrow> env" where
  "w_down now = ex_world exec_down http_ok now"

definition w_up :: "int \<Rightarrow> env" where
  "w_up now = ex_world exec_up http_ok now"

definition pcfg_unconfigured :: plugin_cfg where
  "pcfg_unconfigured = pcfg_of 3 600 None ''#ops'' False ''gateway-restart''"

definition pcfg_logonly :: plugin_cfg where
  "pcfg_logonly = pcfg_of 3 600 None [] False ''gateway-restart''"

section \<open>Recovery switch and inputs for the recovery scenarios\<close>

text \<open>\<^verbatim>\<open>pcfg.recover?.enabled\<close>.\<close>

definition recover_on :: "plugin_cfg \<Rightarrow> bool" where
  "recover_on pcfg = (case recover pcfg of Some rc \<Rightarrow> recover_enabled rc | None \<Rightarrow> False)"

text \<open>
  Threshold 3, recovery enabled, alerts to the log; four ticks sixty seconds apart on a
  gateway that is down; the state after two failed ticks.
\<close>

definition pcfg_recover :: "int \<Rightarrow> string \<Rightarrow> plugin_cfg" where
  "pcfg_recover cool act = pcfg_of 3 cool None [] True act"

definition four_down :: "env list" where
  "four_down = [w_down 1767225600000, w_down 1767225660000, w_down 1767225720000,
                w_down 1767225780000]"

definition two_failures :: wd_state where
  "two_failures = \<lparr>timer = None, failures = 2, lastRecoverAt = 0, lastStateOk = Some False\<rparr>"

text \<open>A world in which only the second backend answers.\<close>

definition exec_second :: "string \<Rightarrow> string list \<Rightarrow> js_error + string \<times> string" where
  \<open>exec_second bin args =
     (if bin = ''openclaw'' \<and> args = health_args then Inr (''{"ok":true}'', [])
      else Inl (Error (''spawn '' @ bin @ '' ENOENT'')))\<close>

definition w_second :: env where
  "w_second = ex_world exec_second http_ok 0"

text \<open>
  Failing deliveries: an HTTP client that answers 500, and one that drops the connection
  on the recovery-failure message only; a configuration with a destination, the supported
  channel and recovery enabled; worlds built from them at a fixed clock reading.
\<close>

definition http_500 :: "request \<Rightarrow> js_error + response" where
  "http_500 req =
     Inr \<lparr>res_ok = False, res_status = 500, res_text = Inr ''Internal Server Error''\<rparr>"

definition http_flaky :: "request \<Rightarrow> js_error + response" where
  "http_flaky req =
     (if has_prefix ''watchdog: recovery failed'' (text_field (body req))
      then Inl (Error ''fetch failed'')
      else Inr \<lparr>res_ok = True, res_status = 200, res_text = Inr []\<rparr>)"

definition pcfg_full :: "int \<Rightarrow> string \<Rightarrow> plugin_cfg" where
  "pcfg_full cool act = pcfg_of 3 cool None ''#ops'' True act"

definition w_down_500 :: env where
  "w_down_500 = ex_world exec_down http_500 1767225720000"

definition w_up_500 :: env where
  "w_up_500 = ex_world exec_up http_500 1767225720000"

definition w_flaky :: env where
  "w_flaky = ex_world exec_down http_flaky 1767225720000"

section \<open>Destination resolution\<close>

text \<open>
  C5, as amended. For every channel configuration in which both the flat account record
  and the \<^verbatim>\<open>accounts.default\<close> entry are present and complete, destination resolution
  returns the credentials of the \<^verbatim>\<open>accounts.default\<close> entry.
\<close>

theorem resolve_prefers_default:
  assumes "Option.bind (Option.bind cfg channels) rocketchat = Some rc"
    and "complete rc"
    and "accounts rc ''default'' = Some a"
    and "complete a"
  shows "resolveRocketChatAccount cfg = Some (credentials a)"
  using assms by (simp add: resolveRocketChatAccount_def)

theorem resolve_prefers_default_witness:
  "complete ex_rc_both \<and> accounts ex_rc_both ''default'' = Some ex_default
   \<and> complete ex_default \<and> resolveRocketChatAccount ex_cfg_both = Some ex_default"
proof -
  have 1: "Option.bind (Option.bind ex_cfg_both channels) rocketchat = Some ex_rc_both"
    by (simp add: ex_cfg_both_def)
  have 2: "complete ex_rc_both" by (simp add: complete_def ex_rc_both_def)
  have 3: "accounts ex_rc_both ''default'' = Some ex_default" by (simp add: ex_rc_both_def)
  have 4: "complete ex_default" by (simp add: complete_def ex_default_def)
  have 5: "credentials ex_default = ex_default" by (simp add: credentials_def ex_default_def)
  from resolve_prefers_default [OF 1 2 3 4] 2 3 4 5 show ?thesis by simp
qed

text \<open>
  C5 as stated fails: with both shapes present and complete, the flat record's
  credentials are not what resolution returns.
\<close>

theorem resolve_flat_not_preferred:
  "complete ex_rc_both \<and> credentials ex_rc_both = ex_flat
   \<and> accounts ex_rc_both ''default'' = Some ex_default \<and> complete ex_default
   \<and> resolveRocketChatAccount ex_cfg_both \<noteq> Some ex_flat"
  by (simp add: resolveRocketChatAccount_def ex_cfg_both_def ex_rc_both_def ex_default_def
      ex_flat_def complete_def credentials_def)

section \<open>Alert sink\<close>

text \<open>
  C9. For every alert text, if the configured destination is empty or the configured
  channel is not \<^verbatim>\<open>rocketchat\<close>, the alert goes to the log only (after a warning when
  it is the channel that is unsupported), no HTTP request is made, and the send succeeds.
\<close>

theorem doAlert_log_only:
  assumes "alertTo pcfg = [] \<or> alertChannel pcfg \<noteq> ''rocketchat''"
  shows "doAlert w cfg pcfg text =
           (Inr (),
            DoAlert text #
            (if alertTo pcfg = [] then []
             else [LogWarn (''watchdog: unsupported alert.channel='' @ alertChannel pcfg
                            @ ''; logging only'')])
            @ [LogInfo text])
         \<and> filter is_fetch (snd (doAlert w cfg pcfg text)) = []"
  using assms by (auto simp add: doAlert_def)

theorem doAlert_log_only_witness:
  "alertChannel (pcfg_of 3 600 (Some ''slack'') ''#ops'' False ''gateway-restart'') \<noteq> ''rocketchat''
   \<and> doAlert (ex_world exec_down http_ok 0) ex_cfg_both
        (pcfg_of 3 600 (Some ''slack'') ''#ops'' False ''gateway-restart'') ''down''
      = (Inr (), [DoAlert ''down'',
                  LogWarn ''watchdog: unsupported alert.channel=slack; logging only'',
                  LogInfo ''down''])"
proof -
  have 1: "alertChannel (pcfg_of 3 600 (Some ''slack'') ''#ops'' False ''gateway-restart'')
             = ''slack''"
    by (simp add: alertChannel_def pcfg_of_def)
  have 2: "alertTo (pcfg_of 3 600 (Some ''slack'') ''#ops'' False ''gateway-restart'') = ''#ops''"
    by (simp add: alertTo_def pcfg_of_def)
  have 3: "alertTo (pcfg_of 3 600 (Some ''slack'') ''#ops'' False ''gateway-restart'') = []
           \<or> alertChannel (pcfg_of 3 600 (Some ''slack'') ''#ops'' False ''gateway-restart'')
               \<noteq> ''rocketchat''"
    by (simp add: 1)
  from doAlert_log_only [OF 3, of "ex_world exec_down http_ok 0" ex_cfg_both "''down''"] 1 2
  show ?thesis by simp
qed

section \<open>Scheduler shutdown\<close>

lemma stop_timer: "timer (service (fst (stop rt))) = None"
  by (simp add: stop_def split: option.splits)

lemma stop_armed: "armed (fst (stop rt)) = armed rt - set_option (timer (service rt))"
  by (simp add: stop_def split: option.splits)

lemma stop_stop: "stop (fst (stop rt)) = (fst (stop rt), [])"
  by (simp add: stop_def split: option.splits)

lemma owned_stop: "owned started rt \<Longrightarrow> owned False (fst (stop rt))"
  by (auto simp add: owned_def stop_def split: option.splits)

lemma owned_start: "owned False rt \<Longrightarrow> owned True (fst (start pc rt))"
  by (auto simp add: owned_def start_def Let_def split: option.splits)

lemma owned_init: "owned False init_runtime"
  by (simp add: owned_def init_runtime_def init_state_def)

lemma owned_run:
  "well_paired started calls \<Longrightarrow> owned started rt
     \<Longrightarrow> \<exists>b. owned b (lifecycle_run pc calls rt)"
proof (induction calls arbitrary: started rt)
  case Nil
  then show ?case by (auto simp add: lifecycle_run_def)
next
  case (Cons c cs)
  show ?case
  proof (cases c)
    case Start
    with Cons.prems have "owned True (fst (start pc rt))" and "well_paired True cs"
      by (auto intro: owned_start)
    from Cons.IH [OF this(2) this(1)] Start show ?thesis
      by (simp add: lifecycle_run_def)
  next
    case Stop
    with Cons.prems have "owned False (fst (stop rt))" and "well_paired False cs"
      by (auto intro: owned_stop)
    from Cons.IH [OF this(2) this(1)] Stop show ?thesis
      by (simp add: lifecycle_run_def)
  qed
qed

lemma lifecycle_run_snoc:
  "lifecycle_run pc (calls @ [c]) rt = lifecycle_step pc c (lifecycle_run pc calls rt)"
  by (simp add: lifecycle_run_def)

text \<open>
  C10, as amended. \<^verbatim>\<open>stop\<close> never throws (it has no failing branch) and leaves the
  timer slot empty from every state; a second \<^verbatim>\<open>stop\<close> changes nothing and clears
  nothing; \<^verbatim>\<open>stop\<close> cancels the interval whose handle the slot held, and only that
  one. After any sequence of lifecycle calls from creation in which \<^verbatim>\<open>start\<close> is never
  called twice without a \<^verbatim>\<open>stop\<close> in between, a \<^verbatim>\<open>stop\<close> leaves no interval armed,
  so no further tick is scheduled.
\<close>

theorem stop_idempotent:
  "timer (service (fst (stop rt))) = None
   \<and> stop (fst (stop rt)) = (fst (stop rt), [])
   \<and> armed (fst (stop rt)) = armed rt - set_option (timer (service rt))
   \<and> (well_paired False calls
        \<longrightarrow> armed (lifecycle_run pc (calls @ [Stop]) init_runtime) = {})"
proof -
  have "armed (lifecycle_run pc (calls @ [Stop]) init_runtime) = {}"
    if "well_paired False calls"
  proof -
    from owned_run [OF that owned_init]
    obtain b where "owned b (lifecycle_run pc calls init_runtime)"
      by blast
    then show ?thesis
      by (auto simp add: lifecycle_run_snoc stop_armed owned_def)
  qed
  then show ?thesis by (simp add: stop_timer stop_stop stop_armed)
qed

theorem stop_idempotent_witness:
  "well_paired False [Stop, Start, Stop, Stop]
   \<and> armed (lifecycle_run (Some (pcfg_of 3 600 None [] False ''gateway-restart''))
              ([Stop, Start, Stop, Stop] @ [Stop]) init_runtime) = {}"
  using stop_idempotent [of init_runtime "[Stop, Start, Stop, Stop]"
      "Some (pcfg_of 3 600 None [] False ''gateway-restart'')"]
  by simp

text \<open>
  C10 as stated fails: when \<^verbatim>\<open>start\<close> has run twice, \<^verbatim>\<open>stop\<close> empties the slot
  and clears the second interval, and the first interval stays armed and keeps
  scheduling ticks.
\<close>

theorem double_start_survives_stop:
  "timer (service (lifecycle_run (Some (pcfg_of 3 600 None [] False ''gateway-restart''))
                    [Start, Start, Stop] init_runtime)) = None
   \<and> armed (lifecycle_run (Some (pcfg_of 3 600 None [] False ''gateway-restart''))
              [Start, Start, Stop] init_runtime) = {0}"
  by (simp add: lifecycle_run_def start_def stop_def init_runtime_def init_state_def pcfg_of_def)

section \<open>Output parsing\<close>

lemma lastIndexOf_None: "lastIndexOf c xs = None \<longleftrightarrow> c \<notin> set xs"
  by (induction xs) (auto split: option.splits)

lemma indexOf_None: "indexOf c xs = None \<longleftrightarrow> c \<notin> set xs"
  by (induction xs) auto

lemma lastIndexOf_last:
  "c \<notin> set rest \<Longrightarrow> lastIndexOf c (pre @ c # rest) = Some (length pre)"
  by (induction pre) (auto simp add: lastIndexOf_None [THEN iffD2] split: option.splits)

lemma indexOf_first:
  "c \<notin> set pre \<Longrightarrow> indexOf c (pre @ c # rest) = Some (length pre)"
  by (induction pre) auto

lemma extract_cases:
  "extractLastJsonObject parse text =
     (case strict_candidate text of
        None \<Rightarrow> Inl (Error ''no JSON object found in output'')
      | Some c \<Rightarrow>
          (case parse c of
             Inr v \<Rightarrow> Inr v
           | Inl _ \<Rightarrow>
               (case fallback_candidate text of
                  Some d \<Rightarrow> parse d
                | None \<Rightarrow> Inl (Error ''failed to parse JSON output''))))"
  by (simp add: extractLastJsonObject_def strict_candidate_def fallback_candidate_def
      split: option.splits sum.splits)

lemma strict_flat:
  "CHR ''{'' \<notin> set rest \<Longrightarrow> strict_candidate (pre @ CHR ''{'' # rest) = Some (CHR ''{'' # rest)"
  by (simp add: strict_candidate_def lastIndexOf_last)

lemma fallback_span:
  assumes "CHR ''{'' \<notin> set pre" and "CHR ''}'' \<notin> set post"
  shows "fallback_candidate (pre @ CHR ''{'' # mid @ CHR ''}'' # post)
           = Some (CHR ''{'' # mid @ [CHR ''}''])"
proof -
  have 1: "indexOf CHR ''{'' (pre @ CHR ''{'' # mid @ CHR ''}'' # post) = Some (length pre)"
    using assms(1) by (rule indexOf_first)
  have "lastIndexOf CHR ''}'' ((pre @ CHR ''{'' # mid) @ CHR ''}'' # post)
          = Some (length (pre @ CHR ''{'' # mid))"
    using assms(2) by (rule lastIndexOf_last)
  then have 2: "lastIndexOf CHR ''}'' (pre @ CHR ''{'' # mid @ CHR ''}'' # post)
          = Some (length pre + Suc (length mid))" by simp
  show ?thesis by (simp add: fallback_candidate_def 1 2 slice_def)
qed

text \<open>
  C7, as amended. For every parser and every text made of leading text followed by a
  well-formed object: when the object contains no further opening brace, the parser
  returns it, whatever the leading text; when strict parsing from the last opening brace
  fails, the leading text has no opening brace and nothing after the object has a closing
  brace, the parser returns what parsing the object itself gives. In general, when strict
  parsing from the trailing position fails the parser falls back to the slice from the
  first opening brace to the last closing brace, and it returns an object exactly when
  one of these two extractions yields one.
\<close>

theorem extract_object:
  "(CHR ''{'' \<notin> set rest \<and> parse (CHR ''{'' # rest) = Inr v
      \<longrightarrow> extractLastJsonObject parse (pre @ CHR ''{'' # rest) = Inr v)
   \<and> (CHR ''{'' \<notin> set pre \<and> CHR ''}'' \<notin> set post
        \<and> strict_candidate (pre @ CHR ''{'' # mid @ CHR ''}'' # post) = Some c
        \<and> parse c = Inl e
      \<longrightarrow> extractLastJsonObject parse (pre @ CHR ''{'' # mid @ CHR ''}'' # post)
            = parse (CHR ''{'' # mid @ [CHR ''}'']))
   \<and> (extractLastJsonObject parse text = Inr v
        \<longleftrightarrow> (\<exists>c. strict_candidate text = Some c
                 \<and> (parse c = Inr v
                      \<or> (\<exists>e d. parse c = Inl e \<and> fallback_candidate text = Some d
                               \<and> parse d = Inr v))))"
proof (intro conjI impI)
  assume "CHR ''{'' \<notin> set rest \<and> parse (CHR ''{'' # rest) = Inr v"
  then show "extractLastJsonObject parse (pre @ CHR ''{'' # rest) = Inr v"
    by (simp add: extract_cases strict_flat)
next
  assume "CHR ''{'' \<notin> set pre \<and> CHR ''}'' \<notin> set post
        \<and> strict_candidate (pre @ CHR ''{'' # mid @ CHR ''}'' # post) = Some c
        \<and> parse c = Inl e"
  then show "extractLastJsonObject parse (pre @ CHR ''{'' # mid @ CHR ''}'' # post)
            = parse (CHR ''{'' # mid @ [CHR ''}''])"
    by (simp add: extract_cases fallback_span)
next
  show "extractLastJsonObject parse text = Inr v
        \<longleftrightarrow> (\<exists>c. strict_candidate text = Some c
                 \<and> (parse c = Inr v
                      \<or> (\<exists>e d. parse c = Inl e \<and> fallback_candidate text = Some d
                               \<and> parse d = Inr v)))"
    by (auto simp add: extract_cases split: option.splits sum.splits)
qed

theorem extract_object_witness:
  \<open>CHR ''{'' \<notin> set ''"ok":true}''
   \<and> json_parse ''{"ok":true}'' = Inr (JObj [(''ok'', JBool True)])
   \<and> extractLastJsonObject json_parse ''{banner} {"ok":true}'' = Inr (JObj [(''ok'', JBool True)])
   \<and> CHR ''{'' \<notin> set ''banner '' \<and> CHR ''}'' \<notin> set ''''
   \<and> strict_candidate ''banner {"a":{"b":1}}'' = Some ''{"b":1}}''
   \<and> json_parse ''{"b":1}}'' = Inl (Error ''SyntaxError'')
   \<and> extractLastJsonObject json_parse ''banner {"a":{"b":1}}''
       = Inr (JObj [(''a'', JObj [(''b'', JNum 1)])])\<close>
proof -
  have a1: \<open>CHR ''{'' \<notin> set ''"ok":true}''\<close> by simp
  have a2: \<open>json_parse ''{"ok":true}'' = Inr (JObj [(''ok'', JBool True)])\<close> by code_simp
  have a3: \<open>extractLastJsonObject json_parse (''{banner} '' @ ''{"ok":true}'')
             = Inr (JObj [(''ok'', JBool True)])\<close>
    using extract_object [where parse = json_parse and pre = \<open>''{banner} ''\<close>
        and rest = \<open>''"ok":true}''\<close> and v = \<open>JObj [(''ok'', JBool True)]\<close>] a1 a2
    by blast
  have b1: \<open>CHR ''{'' \<notin> set ''banner '' \<and> CHR ''}'' \<notin> set ''''\<close> by simp
  have b2: \<open>strict_candidate (''banner '' @ CHR ''{'' # ''"a":{"b":1}'' @ CHR ''}'' # '''')
             = Some ''{"b":1}}''\<close> by code_simp
  have b3: \<open>json_parse ''{"b":1}}'' = Inl (Error ''SyntaxError'')\<close> by code_simp
  have b4: \<open>json_parse (CHR ''{'' # ''"a":{"b":1}'' @ [CHR ''}''])
             = Inr (JObj [(''a'', JObj [(''b'', JNum 1)])])\<close> by code_simp
  have b5: \<open>extractLastJsonObject json_parse (''banner '' @ CHR ''{'' # ''"a":{"b":1}'' @ CHR ''}'' # '''')
             = Inr (JObj [(''a'', JObj [(''b'', JNum 1)])])\<close>
    using extract_object [where parse = json_parse and pre = \<open>''banner ''\<close>
        and mid = \<open>''"a":{"b":1}''\<close> and post = \<open>''''\<close> and c = \<open>''{"b":1}}''\<close>
        and e = \<open>Error ''SyntaxError''\<close>] b1 b2 b3 b4
    by metis
  from a1 a2 a3 b1 b2 b3 b5 show ?thesis by simp
qed

text \<open>
  C7 as stated fails: a banner that contains a brace, followed by a well-formed object
  with a nested object. Strict parsing starts inside the object, the fallback slice starts
  inside the banner, and the parser fails although the text ends with a well-formed
  object.
\<close>

theorem extract_fails_on_braced_banner:
  \<open>json_parse ''{"ok":true,"d":{}}'' = Inr (JObj [(''ok'', JBool True), (''d'', JObj [])])
   \<and> extractLastJsonObject json_parse (''{banner} '' @ ''{"ok":true,"d":{}}'')
       = Inl (Error ''SyntaxError'')\<close>
  by code_simp

section \<open>Traces of the sub-components\<close>

lemma status_imp_alert: "is_status_alert e \<Longrightarrow> is_alert e"
  by (cases e) auto

lemma attempt_imp_alert: "is_recovery_attempt e \<Longrightarrow> is_alert e"
  by (cases e) auto

lemma no_alert_filter:
  "filter is_alert evs = [] \<Longrightarrow> filter is_status_alert evs = [] \<and> filter is_recovery_attempt evs = []"
  by (auto simp add: filter_empty_conv dest: status_imp_alert attempt_imp_alert)

lemma loop_alerts: "filter is_alert (snd (checkHealth_loop w bins lastErr)) = []"
  by (induction bins arbitrary: lastErr) (auto simp add: split_beta split: sum.splits)

lemma loop_restart:
  "ExecFile ''clawdbot'' restart_args \<notin> set (snd (checkHealth_loop w bins lastErr))"
  by (induction bins arbitrary: lastErr)
     (auto simp add: restart_args_def health_args_def split_beta split: sum.splits)

lemma probe_alerts: "filter is_alert (snd (probe w)) = []"
  using loop_alerts [of w backends None]
  by (simp add: probe_def checkHealth_def split_beta split: sum.splits)

lemma probe_restart: "ExecFile ''clawdbot'' restart_args \<notin> set (snd (probe w))"
  using loop_restart [of w backends None]
  by (simp add: probe_def checkHealth_def split_beta split: sum.splits)

lemma send_alerts: "filter is_alert (snd (sendRocketChat w cfg to text)) = []"
  by (simp add: sendRocketChat_def Let_def split: option.splits sum.splits)

lemma send_restart: "ExecFile b args \<notin> set (snd (sendRocketChat w cfg to text))"
  by (simp add: sendRocketChat_def Let_def split: option.splits sum.splits)

lemma doAlert_alerts: "filter is_alert (snd (doAlert w cfg pcfg text)) = [DoAlert text]"
  using send_alerts [of w cfg "alertTo pcfg" "text"]
  by (simp add: doAlert_def split_beta)

lemma doAlert_restart: "ExecFile b args \<notin> set (snd (doAlert w cfg pcfg text))"
  using send_restart [of b args w cfg "alertTo pcfg" "text"]
  by (auto simp add: doAlert_def split_beta)

lemma filter_sub:
  assumes "\<And>e. P e \<Longrightarrow> is_alert e"
  shows "filter P evs = filter P (filter is_alert evs)"
  using assms by (induction evs) auto

lemma doAlert_status:
  "filter is_status_alert (snd (doAlert w cfg pcfg text))
     = (if has_prefix ''watchdog: gateway '' text then [DoAlert text] else [])"
  by (subst filter_sub [of is_status_alert, OF status_imp_alert]) (simp_all add: doAlert_alerts)

lemma doAlert_attempt:
  "filter is_recovery_attempt (snd (doAlert w cfg pcfg text))
     = (if has_prefix ''watchdog: attempting recovery: '' text then [DoAlert text] else [])"
  by (subst filter_sub [of is_recovery_attempt, OF attempt_imp_alert]) (simp_all add: doAlert_alerts)

lemma prefix_status [simp]:
  "has_prefix ''watchdog: gateway '' (formatStatus ''gateway'' b m ts)"
  by (simp add: has_prefix_def formatStatus_def)

lemma prefix_status_attempting [simp]:
  "\<not> has_prefix ''watchdog: gateway '' (attemptingText act n)"
  by (simp add: has_prefix_def attemptingText_def)

lemma prefix_status_failed [simp]:
  "\<not> has_prefix ''watchdog: gateway '' (recoveryFailedText err)"
  by (simp add: has_prefix_def recoveryFailedText_def)

lemma prefix_attempt_status [simp]:
  "\<not> has_prefix ''watchdog: attempting recovery: '' (formatStatus ''gateway'' b m ts)"
  by (simp add: has_prefix_def formatStatus_def)

lemma prefix_attempt_attempting [simp]:
  "has_prefix ''watchdog: attempting recovery: '' (attemptingText act n)"
  by (simp add: has_prefix_def attemptingText_def)

lemma prefix_attempt_failed [simp]:
  "\<not> has_prefix ''watchdog: attempting recovery: '' (recoveryFailedText err)"
  by (simp add: has_prefix_def recoveryFailedText_def)

lemma runRecover_alerts: "filter is_alert (snd (runRecover w act)) = []"
  by (simp add: runRecover_def split: sum.splits)

lemmas no_alerts =
  no_alert_filter [OF probe_alerts] no_alert_filter [OF runRecover_alerts]

lemma recovery_state:
  "fst (recovery w cfg pcfg s)
     = (if recovery_due pcfg s (Date_now w) then s\<lparr>lastRecoverAt := Date_now w\<rparr> else s)"
  by (simp add: recovery_def recovery_due_def Let_def split_beta not_less
      split: option.splits sum.splits)

lemma recovery_attempted:
  "attempted (fst (snd (recovery w cfg pcfg s))) = recovery_due pcfg s (Date_now w)"
  by (auto simp add: recovery_def recovery_due_def Let_def split_beta not_less attempted_def
      doAlert_attempt no_alerts split: option.splits sum.splits)

lemma recovery_status: "status_alerts (fst (snd (recovery w cfg pcfg s))) = []"
  by (simp add: recovery_def Let_def split_beta status_alerts_def
      doAlert_status no_alerts split: option.splits sum.splits)

lemma recovery_restart:
  "restart_invoked (fst (snd (recovery w cfg pcfg s))) \<Longrightarrow> recovery_due pcfg s (Date_now w)"
  by (auto simp add: recovery_def recovery_due_def Let_def split_beta not_less restart_invoked_def
      doAlert_restart split: option.splits sum.splits if_splits)

section \<open>The tick, case by case\<close>

lemma tick_cases [case_names steady back_ok back_thrown quiet down_ok down_thrown]:
  obtains
    "healthy w" and "lastStateOk s \<noteq> Some False"
      and "tick w cfg pcfg s = (after_success s, snd (probe w), None)"
  | "healthy w" and "lastStateOk s = Some False"
      and "fst (doAlert w cfg pcfg (okText w)) = Inr ()"
      and "tick w cfg pcfg s
             = (after_success s, snd (probe w) @ snd (doAlert w cfg pcfg (okText w)), None)"
  | e where "healthy w" and "lastStateOk s = Some False"
      and "fst (doAlert w cfg pcfg (okText w)) = Inl e"
      and "tick w cfg pcfg s = (s, snd (probe w) @ snd (doAlert w cfg pcfg (okText w)), Some e)"
  | "\<not> healthy w" and "\<not> alert_due pcfg s"
      and "tick w cfg pcfg s
             = (fst (recovery w cfg pcfg (after_failure s)),
                snd (probe w) @ fst (snd (recovery w cfg pcfg (after_failure s))),
                snd (snd (recovery w cfg pcfg (after_failure s))))"
  | "\<not> healthy w" and "alert_due pcfg s"
      and "fst (doAlert w cfg pcfg (downText w (failures s + 1))) = Inr ()"
      and "tick w cfg pcfg s
             = (fst (recovery w cfg pcfg (after_failure s)),
                snd (probe w) @ snd (doAlert w cfg pcfg (downText w (failures s + 1)))
                  @ fst (snd (recovery w cfg pcfg (after_failure s))),
                snd (snd (recovery w cfg pcfg (after_failure s))))"
  | e where "\<not> healthy w" and "alert_due pcfg s"
      and "fst (doAlert w cfg pcfg (downText w (failures s + 1))) = Inl e"
      and "tick w cfg pcfg s
             = (after_failure s,
                snd (probe w) @ snd (doAlert w cfg pcfg (downText w (failures s + 1))),
                Some e)"
proof (cases "healthy w")
  case True
  show ?thesis
  proof (cases "lastStateOk s = Some False")
    case False
    with True have "tick w cfg pcfg s = (after_success s, snd (probe w), None)"
      by (simp add: tick_def healthy_def split_beta after_success_def)
    with True False that(1) show ?thesis by blast
  next
    case wasDown: True
    show ?thesis
    proof (cases "fst (doAlert w cfg pcfg (okText w))")
      case (Inl e)
      with True wasDown
      have "tick w cfg pcfg s = (s, snd (probe w) @ snd (doAlert w cfg pcfg (okText w)), Some e)"
        by (simp add: tick_def healthy_def split_beta okText_def)
      with True wasDown Inl that(3) show ?thesis by blast
    next
      case (Inr u)
      with True wasDown
      have "tick w cfg pcfg s
              = (after_success s, snd (probe w) @ snd (doAlert w cfg pcfg (okText w)), None)"
        by (simp add: tick_def healthy_def split_beta okText_def after_success_def)
      with True wasDown Inr that(2) show ?thesis by simp
    qed
  qed
next
  case down: False
  show ?thesis
  proof (cases "alert_due pcfg s")
    case False
    with down
    have "tick w cfg pcfg s
            = (fst (recovery w cfg pcfg (after_failure s)),
               snd (probe w) @ fst (snd (recovery w cfg pcfg (after_failure s))),
               snd (snd (recovery w cfg pcfg (after_failure s))))"
      by (simp add: tick_def healthy_def split_beta Let_def alert_due_def after_failure_def)
    with down False that(4) show ?thesis by blast
  next
    case due: True
    show ?thesis
    proof (cases "fst (doAlert w cfg pcfg (downText w (failures s + 1)))")
      case (Inl e)
      with down due
      have "tick w cfg pcfg s
              = (after_failure s,
                 snd (probe w) @ snd (doAlert w cfg pcfg (downText w (failures s + 1))),
                 Some e)"
        by (simp add: tick_def healthy_def split_beta Let_def alert_due_def after_failure_def
            downText_def)
      with down due Inl that(6) show ?thesis by blast
    next
      case (Inr u)
      with down due
      have "tick w cfg pcfg s
              = (fst (recovery w cfg pcfg (after_failure s)),
                 snd (probe w) @ snd (doAlert w cfg pcfg (downText w (failures s + 1)))
                   @ fst (snd (recovery w cfg pcfg (after_failure s))),
                 snd (snd (recovery w cfg pcfg (after_failure s))))"
        by (simp add: tick_def healthy_def split_beta Let_def alert_due_def after_failure_def
            downText_def)
      with down due Inr that(5) show ?thesis by simp
    qed
  qed
qed

lemma recovery_attempt_filter:
  "(filter is_recovery_attempt (fst (snd (recovery w cfg pcfg s))) = [])
     = (\<not> recovery_due pcfg s (Date_now w))"
  using recovery_attempted [of w cfg pcfg s] by (auto simp add: attempted_def)

lemma recovery_status_filter:
  "filter is_status_alert (fst (snd (recovery w cfg pcfg s))) = []"
  using recovery_status [of w cfg pcfg s] by (simp add: status_alerts_def)

lemma recovery_failures: "failures (fst (recovery w cfg pcfg s)) = failures s"
  by (simp add: recovery_state)

lemma recovery_lastStateOk: "lastStateOk (fst (recovery w cfg pcfg s)) = lastStateOk s"
  by (simp add: recovery_state)

lemma prefix_okText [simp]:
  "has_prefix ''watchdog: gateway '' (okText w)"
  "\<not> has_prefix ''watchdog: attempting recovery: '' (okText w)"
  by (simp_all add: okText_def)

lemma prefix_downText [simp]:
  "has_prefix ''watchdog: gateway '' (downText w n)"
  "\<not> has_prefix ''watchdog: attempting recovery: '' (downText w n)"
  by (simp_all add: downText_def)

lemma tick_failures:
  "failures (fst (tick w cfg pcfg s))
     = (if healthy w then (if completed (tick w cfg pcfg s) then 0 else failures s)
        else failures s + 1)"
  by (cases rule: tick_cases [of w s cfg pcfg])
     (simp_all add: completed_def after_success_def after_failure_def recovery_failures)

lemma tick_lastStateOk:
  "lastStateOk (fst (tick w cfg pcfg s))
     = (if healthy w then (if completed (tick w cfg pcfg s) then Some True else lastStateOk s)
        else Some False)"
  by (cases rule: tick_cases [of w s cfg pcfg])
     (simp_all add: completed_def after_success_def after_failure_def recovery_lastStateOk)

lemma tick_status:
  "status_alerts (fst (snd (tick w cfg pcfg s)))
     = (if healthy w then (if lastStateOk s = Some False then [DoAlert (okText w)] else [])
        else if alert_due pcfg s then [DoAlert (downText w (failures s + 1))] else [])"
  by (cases rule: tick_cases [of w s cfg pcfg])
     (simp_all add: status_alerts_def no_alerts doAlert_status recovery_status_filter)

lemma tick_attempted:
  "attempted (fst (snd (tick w cfg pcfg s)))
     = (\<not> healthy w \<and> recovery_due pcfg (after_failure s) (Date_now w)
        \<and> (alert_due pcfg s \<longrightarrow> fst (doAlert w cfg pcfg (downText w (failures s + 1))) = Inr ()))"
  by (cases rule: tick_cases [of w s cfg pcfg])
     (simp_all add: attempted_def no_alerts doAlert_attempt recovery_attempt_filter)

lemma tick_lastRecoverAt:
  "lastRecoverAt (fst (tick w cfg pcfg s))
     = (if attempted (fst (snd (tick w cfg pcfg s))) then Date_now w else lastRecoverAt s)"
  by (cases rule: tick_cases [of w s cfg pcfg])
     (simp_all add: attempted_def no_alerts doAlert_attempt recovery_attempt_filter
        recovery_state after_success_def after_failure_def)

lemma tick_restart:
  "restart_invoked (fst (snd (tick w cfg pcfg s)))
     \<Longrightarrow> attempted (fst (snd (tick w cfg pcfg s)))"
  using recovery_restart [of w cfg pcfg "after_failure s"] probe_restart [of w]
  by (cases rule: tick_cases [of w s cfg pcfg])
     (auto simp add: restart_invoked_def attempted_def doAlert_restart no_alerts doAlert_attempt
        recovery_attempt_filter)

section \<open>Failure counter\<close>

lemma run_snoc:
  "run cfg pcfg (ws @ [w]) s
     = (fst (tick w cfg pcfg (fst (run cfg pcfg ws s))),
        snd (run cfg pcfg ws s) @ [snd (tick w cfg pcfg (fst (run cfg pcfg ws s)))])"
  by (induction ws arbitrary: s) (simp_all add: split_beta)

lemma run_length: "length (snd (run cfg pcfg ws s)) = length ws"
  by (induction ws arbitrary: s) (simp_all add: split_beta)

lemma trailing_snoc:
  "trailing_failures (outcomes @ [b]) = (if b then 0 else trailing_failures outcomes + 1)"
  by (simp add: trailing_failures_def)

lemma run_failures:
  "healthy_completed ws (snd (run cfg pcfg ws init_state))
     \<Longrightarrow> failures (fst (run cfg pcfg ws init_state)) = trailing_failures (map healthy ws)"
proof (induction ws rule: rev_induct)
  case Nil
  show ?case by (simp add: init_state_def trailing_failures_def)
next
  case (snoc w ws)
  let ?s = "fst (run cfg pcfg ws init_state)"
  from snoc.prems
  have pre: "healthy_completed ws (snd (run cfg pcfg ws init_state))"
    and last: "healthy w \<longrightarrow> completed (tick w cfg pcfg ?s)"
    by (simp_all add: healthy_completed_def run_snoc run_length completed_def)
  from snoc.IH [OF pre] last show ?case
    by (simp add: run_snoc tick_failures trailing_snoc)
qed

text \<open>
  C1, as amended. Each unhealthy outcome increments the counter by 1, whether or not the
  tick then completes; a healthy outcome resets it to 0 when its tick runs to completion,
  and leaves it unchanged when the tick is rejected (which only the failing delivery of
  the recovery-confirmed alert can cause); nothing else changes it. Hence, for every
  sequence of probe outcomes processed by successive ticks from creation in which the
  ticks with a healthy outcome complete, the counter equals the number of consecutive
  unhealthy outcomes at the end of the sequence.
\<close>

theorem failures_counts:
  "failures (fst (tick w cfg pcfg s))
     = (if healthy w then (if completed (tick w cfg pcfg s) then 0 else failures s)
        else failures s + 1)
   \<and> (healthy_completed ws (snd (run cfg pcfg ws init_state))
        \<longrightarrow> failures (fst (run cfg pcfg ws init_state)) = trailing_failures (map healthy ws))"
  by (simp add: tick_failures run_failures)

theorem failures_counts_witness:
  "healthy_completed [w_up 0, w_down 60000, w_down 120000]
     (snd (run None pcfg_logonly [w_up 0, w_down 60000, w_down 120000] init_state))
   \<and> map healthy [w_up 0, w_down 60000, w_down 120000] = [True, False, False]
   \<and> failures (fst (run None pcfg_logonly [w_up 0, w_down 60000, w_down 120000] init_state)) = 2"
proof -
  have 1: "healthy_completed [w_up 0, w_down 60000, w_down 120000]
     (snd (run None pcfg_logonly [w_up 0, w_down 60000, w_down 120000] init_state))"
    by code_simp
  have 2: "map healthy [w_up 0, w_down 60000, w_down 120000] = [True, False, False]"
    by code_simp
  have 3: "trailing_failures [True, False, False] = 2"
    by (simp add: trailing_failures_def)
  from failures_counts [where ws = "[w_up 0, w_down 60000, w_down 120000]" and cfg = None
      and pcfg = pcfg_logonly] 1 2 3
  have "failures (fst (run None pcfg_logonly [w_up 0, w_down 60000, w_down 120000] init_state)) = 2"
    by simp
  with 1 2 show ?thesis by blast
qed

text \<open>
  C1 as stated fails: the destination is set and the host has no channel credentials, so
  every delivery throws. The third outcome is healthy, the recovery-confirmed alert of
  its tick throws before the reset, and the counter stays at 2.
\<close>

theorem reset_skipped_when_alert_throws:
  "map healthy [w_down 0, w_down 60000, w_up 120000] = [False, False, True]
   \<and> trailing_failures [False, False, True] = 0
   \<and> failures (fst (run None pcfg_unconfigured [w_down 0, w_down 60000, w_up 120000] init_state))
       = 2"
proof -
  have 1: "map healthy [w_down 0, w_down 60000, w_up 120000] = [False, False, True]"
    by code_simp
  have 2: "trailing_failures [False, False, True] = 0"
    by (simp add: trailing_failures_def)
  have 3: "failures (fst (run None pcfg_unconfigured [w_down 0, w_down 60000, w_up 120000]
              init_state)) = 2"
    by code_simp
  from 1 2 3 show ?thesis by blast
qed

section \<open>Status alerts\<close>

text \<open>
  C2. In every state, hence after every sequence of ticks, a tick raises a status alert
  (a text of \<^verbatim>\<open>formatStatus\<close>) if and only if the outcome is unhealthy and the new
  failure count is 1 or equals the threshold, or the outcome is healthy and the last
  known state is unhealthy. The alerts of the recovery sequence are not status alerts.
\<close>

theorem status_alert_iff:
  "(status_alerts (fst (snd (tick w cfg pcfg s))) \<noteq> [])
     = ((\<not> healthy w \<and> (failures s + 1 = 1 \<or> int (failures s + 1) = failureThreshold pcfg))
        \<or> (healthy w \<and> lastStateOk s = Some False))"
  by (auto simp add: tick_status alert_due_def)

theorem status_alert_iff_witness:
  "\<not> healthy (w_down 0) \<and> failures init_state + 1 = 1
   \<and> status_alerts (fst (snd (tick (w_down 0) None pcfg_unconfigured init_state))) \<noteq> []
   \<and> healthy (w_up 0) \<and> lastStateOk init_state = None
   \<and> status_alerts (fst (snd (tick (w_up 0) None pcfg_unconfigured init_state))) = []"
proof -
  have 1: "\<not> healthy (w_down 0)" by code_simp
  have 2: "failures init_state + 1 = 1" by (simp add: init_state_def)
  have 3: "healthy (w_up 0)" by code_simp
  have 4: "lastStateOk init_state = None" by (simp add: init_state_def)
  from status_alert_iff [of "w_down 0" None pcfg_unconfigured init_state] 1 2
  have 5: "status_alerts (fst (snd (tick (w_down 0) None pcfg_unconfigured init_state))) \<noteq> []"
    by simp
  from status_alert_iff [of "w_up 0" None pcfg_unconfigured init_state] 3 4
  have 6: "status_alerts (fst (snd (tick (w_up 0) None pcfg_unconfigured init_state))) = []"
    by simp
  from 1 2 3 4 5 6 show ?thesis by blast
qed

section \<open>Recovery gate\<close>

lemma tick_attempted_gate:
  assumes "attempted (fst (snd (tick w cfg pcfg s)))"
  shows "recover_on pcfg \<and> failureThreshold pcfg \<le> int (failures s + 1)
         \<and> cooldownMs pcfg \<le> Date_now w - lastRecoverAt s"
  using assms
  by (auto simp add: tick_attempted recovery_due_def recover_on_def after_failure_def
      split: option.splits)

lemma run_Cons:
  "run cfg pcfg (w # ws) s
     = (fst (run cfg pcfg ws (fst (tick w cfg pcfg s))),
        snd (tick w cfg pcfg s) # snd (run cfg pcfg ws (fst (tick w cfg pcfg s))))"
  by (simp add: split_beta)

lemma attempt_after_last:
  assumes "0 \<le> cooldownMs pcfg"
  shows "j < length ws \<Longrightarrow> attempted (fst (snd (run cfg pcfg ws s) ! j))
           \<Longrightarrow> cooldownMs pcfg \<le> Date_now (ws ! j) - lastRecoverAt s"
proof (induction ws arbitrary: s j)
  case Nil
  then show ?case by simp
next
  case (Cons w ws)
  show ?case
  proof (cases j)
    case 0
    with Cons.prems tick_attempted_gate [of w cfg pcfg s] show ?thesis
      by (simp add: run_Cons del: run.simps)
  next
    case (Suc k)
    with Cons.prems
    have "cooldownMs pcfg \<le> Date_now (ws ! k) - lastRecoverAt (fst (tick w cfg pcfg s))"
      by (intro Cons.IH) (simp_all add: run_Cons del: run.simps)
    moreover have "lastRecoverAt s \<le> lastRecoverAt (fst (tick w cfg pcfg s))"
      using assms tick_attempted_gate [of w cfg pcfg s] by (auto simp add: tick_lastRecoverAt)
    ultimately show ?thesis using Suc by simp
  qed
qed

lemma attempts_spaced:
  assumes "0 \<le> cooldownMs pcfg"
  shows "i < j \<Longrightarrow> j < length ws \<Longrightarrow> attempted (fst (snd (run cfg pcfg ws s) ! i))
           \<Longrightarrow> attempted (fst (snd (run cfg pcfg ws s) ! j))
           \<Longrightarrow> cooldownMs pcfg \<le> Date_now (ws ! j) - Date_now (ws ! i)"
proof (induction ws arbitrary: s i j)
  case Nil
  then show ?case by simp
next
  case (Cons w ws)
  from Cons.prems(1) obtain k where j: "j = Suc k" by (cases j) auto
  show ?case
  proof (cases i)
    case 0
    with Cons.prems j have "attempted (fst (snd (tick w cfg pcfg s)))"
      and "attempted (fst (snd (run cfg pcfg ws (fst (tick w cfg pcfg s))) ! k))"
      and "k < length ws"
      by (simp_all add: run_Cons del: run.simps)
    with attempt_after_last [OF assms, of k ws cfg "fst (tick w cfg pcfg s)"] 0 j
    show ?thesis by (simp add: tick_lastRecoverAt)
  next
    case (Suc i')
    with Cons.prems j show ?thesis
      using Cons.IH [of i' k "fst (tick w cfg pcfg s)"]
      by (simp add: run_Cons del: run.simps)
  qed
qed

lemma run_disabled:
  assumes "\<not> recover_on pcfg"
  shows "list_all (\<lambda>r. \<not> attempted (fst r) \<and> \<not> restart_invoked (fst r)) (snd (run cfg pcfg ws s))"
proof (induction ws arbitrary: s)
  case Nil
  show ?case by simp
next
  case (Cons w ws)
  from assms tick_attempted_gate [of w cfg pcfg s] tick_restart [of w cfg pcfg s]
  have "\<not> attempted (fst (snd (tick w cfg pcfg s)))
        \<and> \<not> restart_invoked (fst (snd (tick w cfg pcfg s)))" by blast
  with Cons.IH [of "fst (tick w cfg pcfg s)"] show ?case
    by (simp add: run_Cons del: run.simps)
qed

text \<open>
  C3. A tick attempts a recovery (records the attempt and raises the "attempting recovery"
  alert) only when recovery is enabled, the new failure count has reached the threshold
  and the cooldown has elapsed since the recorded last attempt (\<open>lastRecoverAt\<close>, which
  is 0 at creation); the restart command is run only in a tick that attempts a recovery.
  Consequently, in every sequence of ticks, two attempts are at least the cooldown apart,
  and with recovery disabled no tick attempts a recovery or runs the restart command.
\<close>

theorem recovery_gated:
  "(attempted (fst (snd (tick w cfg pcfg s)))
      \<longrightarrow> recover_on pcfg \<and> failureThreshold pcfg \<le> int (failures s + 1)
          \<and> cooldownMs pcfg \<le> Date_now w - lastRecoverAt s)
   \<and> (restart_invoked (fst (snd (tick w cfg pcfg s)))
        \<longrightarrow> attempted (fst (snd (tick w cfg pcfg s))))
   \<and> (0 \<le> cooldownSec pcfg \<and> i < j \<and> j < length ws
        \<and> attempted (fst (snd (run cfg pcfg ws s0) ! i))
        \<and> attempted (fst (snd (run cfg pcfg ws s0) ! j))
      \<longrightarrow> cooldownMs pcfg \<le> Date_now (ws ! j) - Date_now (ws ! i))
   \<and> (\<not> recover_on pcfg
      \<longrightarrow> list_all (\<lambda>r. \<not> attempted (fst r) \<and> \<not> restart_invoked (fst r))
            (snd (run cfg pcfg ws s0)))"
proof -
  have spaced: "cooldownMs pcfg \<le> Date_now (ws ! j) - Date_now (ws ! i)"
    if a: "0 \<le> cooldownSec pcfg \<and> i < j \<and> j < length ws
        \<and> attempted (fst (snd (run cfg pcfg ws s0) ! i))
        \<and> attempted (fst (snd (run cfg pcfg ws s0) ! j))"
  proof -
    from a have "0 \<le> cooldownMs pcfg" by (simp add: cooldownMs_def)
    from attempts_spaced [OF this, of i j ws cfg s0] a show ?thesis by blast
  qed
  from tick_attempted_gate [of w cfg pcfg s] tick_restart [of w cfg pcfg s] spaced
    run_disabled [of pcfg cfg ws s0]
  show ?thesis by blast
qed

theorem recovery_gated_witness:
  "attempted (fst (snd (tick (w_down 1767225720000) None (pcfg_recover 60 ''gateway-restart'')
                          two_failures)))
   \<and> recover_on (pcfg_recover 60 ''gateway-restart'')
   \<and> failureThreshold (pcfg_recover 60 ''gateway-restart'') \<le> int (failures two_failures + 1)
   \<and> cooldownMs (pcfg_recover 60 ''gateway-restart'')
        \<le> Date_now (w_down 1767225720000) - lastRecoverAt two_failures
   \<and> 0 \<le> cooldownSec (pcfg_recover 60 ''gateway-restart'')
   \<and> (2::nat) < 3 \<and> 3 < length four_down
   \<and> attempted (fst (snd (run None (pcfg_recover 60 ''gateway-restart'') four_down init_state) ! 2))
   \<and> attempted (fst (snd (run None (pcfg_recover 60 ''gateway-restart'') four_down init_state) ! 3))
   \<and> cooldownMs (pcfg_recover 60 ''gateway-restart'')
        \<le> Date_now (four_down ! 3) - Date_now (four_down ! 2)
   \<and> \<not> recover_on pcfg_logonly
   \<and> list_all (\<lambda>r. \<not> attempted (fst r) \<and> \<not> restart_invoked (fst r))
        (snd (run None pcfg_logonly four_down init_state))"
proof -
  let ?P = "pcfg_recover 60 ''gateway-restart''"
  have 1: "attempted (fst (snd (tick (w_down 1767225720000) None ?P two_failures)))"
    by code_simp
  have 2: "0 \<le> cooldownSec ?P \<and> (2::nat) < 3 \<and> 3 < length four_down"
    by (simp add: pcfg_recover_def pcfg_of_def four_down_def)
  have 3: "attempted (fst (snd (run None ?P four_down init_state) ! 2))"
    by code_simp
  have 4: "attempted (fst (snd (run None ?P four_down init_state) ! 3))"
    by code_simp
  have 5: "\<not> recover_on pcfg_logonly"
    by (simp add: recover_on_def pcfg_logonly_def pcfg_of_def)
  from recovery_gated [where w = "w_down 1767225720000" and cfg = None and pcfg = ?P
      and s = two_failures and i = 2 and j = 3 and ws = four_down and ?s0.0 = init_state] 1 2 3 4
  have 6: "recover_on ?P \<and> failureThreshold ?P \<le> int (failures two_failures + 1)
           \<and> cooldownMs ?P \<le> Date_now (w_down 1767225720000) - lastRecoverAt two_failures
           \<and> cooldownMs ?P \<le> Date_now (four_down ! 3) - Date_now (four_down ! 2)"
    by blast
  from recovery_gated [where cfg = None and pcfg = pcfg_logonly and ws = four_down
      and ?s0.0 = init_state] 5
  have 7: "list_all (\<lambda>r. \<not> attempted (fst r) \<and> \<not> restart_invoked (fst r))
        (snd (run None pcfg_logonly four_down init_state))"
    by blast
  from 1 2 3 4 5 6 7 show ?thesis by blast
qed

section \<open>Completion of a tick\<close>

lemma recovery_completes:
  assumes "\<And>t. fst (doAlert w cfg pcfg t) = Inr ()"
  shows "snd (snd (recovery w cfg pcfg s)) = None"
  using assms
  by (simp add: recovery_def Let_def split_beta split: option.splits sum.splits)

lemma tick_completes:
  assumes "\<And>t. fst (doAlert w cfg pcfg t) = Inr ()"
  shows "completed (tick w cfg pcfg s)"
  using assms recovery_completes [of w cfg pcfg "after_failure s", OF assms]
  by (cases rule: tick_cases [of w s cfg pcfg]) (simp_all add: completed_def)

section \<open>Backend fallback of the prober\<close>

lemma runGatewayHealth_bin: "runGatewayHealth w bin = Inr (b, js) \<Longrightarrow> b = bin"
  by (auto simp add: runGatewayHealth_def split: sum.splits prod.splits)

lemma loop_first_success:
  assumes "\<forall>b \<in> set pre. isl (runGatewayHealth w b)"
    and "runGatewayHealth w bin = Inr (bin, js)"
  shows "checkHealth_loop w (pre @ bin # rest) lastErr
           = (Inr (health_of bin js), map (\<lambda>b. ExecFile b health_args) (pre @ [bin]))"
  using assms
proof (induction pre arbitrary: lastErr)
  case Nil
  then show ?case by simp
next
  case (Cons a pre)
  then obtain err where "runGatewayHealth w a = Inl err" by (cases "runGatewayHealth w a") auto
  with Cons show ?case by simp
qed

lemma loop_all_fail:
  assumes "bins \<noteq> []"
    and "\<forall>b \<in> set bins. isl (runGatewayHealth w b)"
    and "runGatewayHealth w (last bins) = Inl e"
  shows "checkHealth_loop w bins lastErr = (Inl e, map (\<lambda>b. ExecFile b health_args) bins)"
  using assms
proof (induction bins arbitrary: lastErr)
  case Nil
  then show ?case by simp
next
  case (Cons a bins)
  then obtain err where a: "runGatewayHealth w a = Inl err"
    by (cases "runGatewayHealth w a") auto
  show ?case
  proof (cases bins)
    case Nil
    with Cons.prems a show ?thesis by simp
  next
    case (Cons b bs)
    with Cons.prems Cons.IH [of "Some err"] a show ?thesis by simp
  qed
qed

lemma probe_failed:
  assumes "fst (checkHealth w) = Inl e"
  shows "fst (probe w) = (False, message e)"
  using assms by (simp add: probe_def split_beta split: sum.splits)

text \<open>
  C6. For every list of backends tried in order, the probe returns the result of the first
  backend that yields a parseable object, and runs no later backend; if every backend
  fails, the probe fails with the error of the last backend. The tick takes that failure
  as an unhealthy outcome: the counter is incremented, the last known state is unhealthy,
  the status alert (when one is due) carries the error message in its detail, and the
  tick completes whenever its alerts are delivered.
\<close>

theorem probe_fallback:
  "((\<forall>b \<in> set pre. isl (runGatewayHealth w b)) \<and> runGatewayHealth w bin = Inr (bin, js)
      \<longrightarrow> checkHealth_loop w (pre @ bin # rest) lastErr
           = (Inr (health_of bin js), map (\<lambda>b. ExecFile b health_args) (pre @ [bin])))
   \<and> (bins \<noteq> [] \<and> (\<forall>b \<in> set bins. isl (runGatewayHealth w b))
        \<and> runGatewayHealth w (last bins) = Inl e
      \<longrightarrow> checkHealth_loop w bins lastErr = (Inl e, map (\<lambda>b. ExecFile b health_args) bins))
   \<and> (fst (checkHealth w) = Inl e
      \<longrightarrow> \<not> healthy w
          \<and> failures (fst (tick w cfg pcfg s)) = failures s + 1
          \<and> lastStateOk (fst (tick w cfg pcfg s)) = Some False
          \<and> status_alerts (fst (snd (tick w cfg pcfg s)))
              = (if alert_due pcfg s
                 then [DoAlert (formatStatus ''gateway'' False
                                  (''failures='' @ showNat (failures s + 1)
                                   @ (if message e \<noteq> [] then '': '' @ message e else []))
                                  (toISOString w))]
                 else [])
          \<and> ((\<forall>t. fst (doAlert w cfg pcfg t) = Inr ()) \<longrightarrow> completed (tick w cfg pcfg s)))"
proof -
  have third: "\<not> healthy w
          \<and> failures (fst (tick w cfg pcfg s)) = failures s + 1
          \<and> lastStateOk (fst (tick w cfg pcfg s)) = Some False
          \<and> status_alerts (fst (snd (tick w cfg pcfg s)))
              = (if alert_due pcfg s
                 then [DoAlert (formatStatus ''gateway'' False
                                  (''failures='' @ showNat (failures s + 1)
                                   @ (if message e \<noteq> [] then '': '' @ message e else []))
                                  (toISOString w))]
                 else [])"
    if "fst (checkHealth w) = Inl e"
  proof -
    from probe_failed [OF that] have "\<not> healthy w" and "snd (fst (probe w)) = message e"
      by (simp_all add: healthy_def)
    then show ?thesis
      by (simp add: tick_failures tick_lastStateOk tick_status downText_def downDetail_def)
  qed
  from loop_first_success [of pre w bin js rest lastErr] loop_all_fail [of bins w e lastErr]
    third tick_completes [of w cfg pcfg s]
  show ?thesis by blast
qed

theorem probe_fallback_witness:
  "isl (runGatewayHealth w_second ''clawdbot'')
   \<and> runGatewayHealth w_second ''openclaw'' = Inr (''openclaw'', JObj [(''ok'', JBool True)])
   \<and> checkHealth w_second
       = (Inr (health_of ''openclaw'' (JObj [(''ok'', JBool True)])),
          [ExecFile ''clawdbot'' health_args, ExecFile ''openclaw'' health_args])
   \<and> runGatewayHealth (w_up 0) ''clawdbot''
       = Inr (''clawdbot'', JObj [(''ok'', JBool True), (''durationMs'', JNum 12)])
   \<and> checkHealth (w_up 0)
       = (Inr (health_of ''clawdbot'' (JObj [(''ok'', JBool True), (''durationMs'', JNum 12)])),
          [ExecFile ''clawdbot'' health_args])
   \<and> isl (runGatewayHealth (w_down 0) ''clawdbot'')
   \<and> runGatewayHealth (w_down 0) ''openclaw'' = Inl (Error ''spawn openclaw ENOENT'')
   \<and> checkHealth (w_down 0)
       = (Inl (Error ''spawn openclaw ENOENT''),
          [ExecFile ''clawdbot'' health_args, ExecFile ''openclaw'' health_args])
   \<and> failures (fst (tick (w_down 0) None pcfg_logonly init_state)) = 1
   \<and> lastStateOk (fst (tick (w_down 0) None pcfg_logonly init_state)) = Some False
   \<and> status_alerts (fst (snd (tick (w_down 0) None pcfg_logonly init_state)))
       = [DoAlert ''watchdog: gateway DOWN (failures=1: spawn openclaw ENOENT) @ 2026-01-01T00:00:00.000Z'']
   \<and> completed (tick (w_down 0) None pcfg_logonly init_state)"
proof -
  have a1: "isl (runGatewayHealth w_second ''clawdbot'')" by code_simp
  have a2: "runGatewayHealth w_second ''openclaw''
              = Inr (''openclaw'', JObj [(''ok'', JBool True)])" by code_simp
  from a1 have a3: "\<forall>b \<in> set [''clawdbot'']. isl (runGatewayHealth w_second b)" by simp
  from probe_fallback [where pre = "[''clawdbot'']" and w = w_second and bin = "''openclaw''"
      and js = "JObj [(''ok'', JBool True)]" and rest = "[]" and lastErr = None] a2 a3
  have "checkHealth_loop w_second ([''clawdbot''] @ ''openclaw'' # []) None
          = (Inr (health_of ''openclaw'' (JObj [(''ok'', JBool True)])),
             map (\<lambda>b. ExecFile b health_args) ([''clawdbot''] @ [''openclaw'']))"
    by blast
  then have a4: "checkHealth w_second
       = (Inr (health_of ''openclaw'' (JObj [(''ok'', JBool True)])),
          [ExecFile ''clawdbot'' health_args, ExecFile ''openclaw'' health_args])"
    by (simp add: checkHealth_def backends_def)
  have b1: "runGatewayHealth (w_up 0) ''clawdbot''
       = Inr (''clawdbot'', JObj [(''ok'', JBool True), (''durationMs'', JNum 12)])"
    by code_simp
  from probe_fallback [where pre = "[]" and w = "w_up 0" and bin = "''clawdbot''"
      and js = "JObj [(''ok'', JBool True), (''durationMs'', JNum 12)]"
      and rest = "[''openclaw'']" and lastErr = None] b1
  have b2: "checkHealth (w_up 0)
       = (Inr (health_of ''clawdbot'' (JObj [(''ok'', JBool True), (''durationMs'', JNum 12)])),
          [ExecFile ''clawdbot'' health_args])"
    by (simp add: checkHealth_def backends_def)
  have c1: "isl (runGatewayHealth (w_down 0) ''clawdbot'')" by code_simp
  have c2: "runGatewayHealth (w_down 0) ''openclaw'' = Inl (Error ''spawn openclaw ENOENT'')"
    by code_simp
  from c1 c2 have c3: "backends \<noteq> [] \<and> (\<forall>b \<in> set backends. isl (runGatewayHealth (w_down 0) b))
      \<and> runGatewayHealth (w_down 0) (last backends) = Inl (Error ''spawn openclaw ENOENT'')"
    by (simp add: backends_def)
  from probe_fallback [where bins = backends and w = "w_down 0"
      and e = "Error ''spawn openclaw ENOENT''" and lastErr = None] c3
  have "checkHealth_loop (w_down 0) backends None
          = (Inl (Error ''spawn openclaw ENOENT''), map (\<lambda>b. ExecFile b health_args) backends)"
    by blast
  then have c4: "checkHealth (w_down 0)
       = (Inl (Error ''spawn openclaw ENOENT''),
          [ExecFile ''clawdbot'' health_args, ExecFile ''openclaw'' health_args])"
    by (simp add: checkHealth_def backends_def)
  have d1: "\<forall>t. fst (doAlert (w_down 0) None pcfg_logonly t) = Inr ()"
    by (simp add: doAlert_def alertTo_def pcfg_logonly_def pcfg_of_def)
  have d2: "alert_due pcfg_logonly init_state"
    by (simp add: alert_due_def init_state_def)
  have d3: "formatStatus ''gateway'' False
              (''failures='' @ showNat (failures init_state + 1)
               @ (if message (Error ''spawn openclaw ENOENT'') \<noteq> []
                  then '': '' @ message (Error ''spawn openclaw ENOENT'') else []))
              (toISOString (w_down 0))
            = ''watchdog: gateway DOWN (failures=1: spawn openclaw ENOENT) @ 2026-01-01T00:00:00.000Z''"
    by code_simp
  from c4 have d4: "fst (checkHealth (w_down 0)) = Inl (Error ''spawn openclaw ENOENT'')"
    by simp
  from probe_fallback [where w = "w_down 0" and e = "Error ''spawn openclaw ENOENT''"
      and cfg = None and pcfg = pcfg_logonly and s = init_state] d4 d1 d2
  have d5: "failures (fst (tick (w_down 0) None pcfg_logonly init_state)) = failures init_state + 1
     \<and> lastStateOk (fst (tick (w_down 0) None pcfg_logonly init_state)) = Some False
     \<and> status_alerts (fst (snd (tick (w_down 0) None pcfg_logonly init_state)))
         = [DoAlert (formatStatus ''gateway'' False
              (''failures='' @ showNat (failures init_state + 1)
               @ (if message (Error ''spawn openclaw ENOENT'') \<noteq> []
                  then '': '' @ message (Error ''spawn openclaw ENOENT'') else []))
              (toISOString (w_down 0)))]
     \<and> completed (tick (w_down 0) None pcfg_logonly init_state)"
    by simp
  have d6: "failures init_state + 1 = 1" by (simp add: init_state_def)
  from d5 have e1: "failures (fst (tick (w_down 0) None pcfg_logonly init_state)) = 1"
    unfolding d6 by blast
  from d5 have e2: "lastStateOk (fst (tick (w_down 0) None pcfg_logonly init_state)) = Some False"
    by blast
  from d5 have e3: "status_alerts (fst (snd (tick (w_down 0) None pcfg_logonly init_state)))
       = [DoAlert ''watchdog: gateway DOWN (failures=1: spawn openclaw ENOENT) @ 2026-01-01T00:00:00.000Z'']"
    unfolding d3 by blast
  from d5 have e4: "completed (tick (w_down 0) None pcfg_logonly init_state)" by blast
  from a1 a2 a4 b1 b2 c1 c2 c4 e1 e2 e3 e4 show ?thesis by blast
qed

section \<open>Exceptions and the tick\<close>

lemma doAlert_head: "DoAlert t \<in> set (snd (doAlert w cfg pcfg t))"
  by (simp add: doAlert_def split_beta)

lemma recovery_rejected:
  assumes "snd (snd (recovery w cfg pcfg s)) = Some e"
  shows "\<exists>t. DoAlert t \<in> set (fst (snd (recovery w cfg pcfg s)))
             \<and> fst (doAlert w cfg pcfg t) = Inl e"
  using assms
  by (auto simp add: recovery_def Let_def split_beta
      split: option.splits sum.splits if_splits)
     (blast intro: doAlert_head)+

lemma tick_rejected:
  assumes "snd (snd (tick w cfg pcfg s)) = Some e"
  shows "\<exists>t. DoAlert t \<in> set (fst (snd (tick w cfg pcfg s)))
             \<and> fst (doAlert w cfg pcfg t) = Inl e"
proof (cases rule: tick_cases [of w s cfg pcfg])
  case steady
  with assms show ?thesis by simp
next
  case back_ok
  with assms show ?thesis by simp
next
  case (back_thrown e')
  with assms doAlert_head [of "okText w" w cfg pcfg] show ?thesis by auto
next
  case quiet
  with assms recovery_rejected [of w cfg pcfg "after_failure s" e] show ?thesis by auto
next
  case down_ok
  with assms recovery_rejected [of w cfg pcfg "after_failure s" e] show ?thesis by auto
next
  case (down_thrown e')
  with assms doAlert_head [of "downText w (failures s + 1)" w cfg pcfg] show ?thesis by auto
qed

lemma doAlert_logged:
  assumes "alertTo pcfg = [] \<or> alertChannel pcfg \<noteq> ''rocketchat''"
  shows "fst (doAlert w cfg pcfg t) = Inr ()"
  using assms by (auto simp add: doAlert_def)

lemma tick_back_thrown:
  assumes "healthy w" and "lastStateOk s = Some False"
    and "fst (doAlert w cfg pcfg (okText w)) = Inl e"
  shows "tick w cfg pcfg s = (s, snd (probe w) @ snd (doAlert w cfg pcfg (okText w)), Some e)"
  using assms by (cases rule: tick_cases [of w s cfg pcfg]) simp_all

lemma tick_down_thrown:
  assumes "\<not> healthy w" and "alert_due pcfg s"
    and "fst (doAlert w cfg pcfg (downText w (failures s + 1))) = Inl e"
  shows "tick w cfg pcfg s
           = (after_failure s,
              snd (probe w) @ snd (doAlert w cfg pcfg (downText w (failures s + 1))), Some e)"
  using assms by (cases rule: tick_cases [of w s cfg pcfg]) simp_all

lemma tick_timer: "timer (fst (tick w cfg pcfg s)) = timer s"
  by (cases rule: tick_cases [of w s cfg pcfg])
     (simp_all add: recovery_state after_success_def after_failure_def)

text \<open>
  C4, as amended. No exception of the health prober or of the recovery executor escapes
  a tick: whenever the alerts a tick raises are delivered or logged the tick completes,
  and it always completes when alerts go to the log only (empty destination or unsupported
  channel). An alert delivery failure (missing channel credentials, network error,
  non-success response) is not caught: every rejection of a tick is the delivery error of
  an alert it raised, and the tick stops at that alert, skipping its remaining steps (on a
  healthy outcome the state stays as it was, on an unhealthy outcome the recovery step is
  not reached). A tick never touches the timer slot, so the interval stays armed.
\<close>

theorem tick_rejections:
  "((\<forall>t. fst (doAlert w cfg pcfg t) = Inr ()) \<longrightarrow> completed (tick w cfg pcfg s))
   \<and> (alertTo pcfg = [] \<or> alertChannel pcfg \<noteq> ''rocketchat''
        \<longrightarrow> completed (tick w cfg pcfg s))
   \<and> (snd (snd (tick w cfg pcfg s)) = Some e
        \<longrightarrow> (\<exists>t. DoAlert t \<in> set (fst (snd (tick w cfg pcfg s)))
                 \<and> fst (doAlert w cfg pcfg t) = Inl e))
   \<and> (healthy w \<and> lastStateOk s = Some False \<and> fst (doAlert w cfg pcfg (okText w)) = Inl e
        \<longrightarrow> tick w cfg pcfg s
             = (s, snd (probe w) @ snd (doAlert w cfg pcfg (okText w)), Some e))
   \<and> (\<not> healthy w \<and> alert_due pcfg s
        \<and> fst (doAlert w cfg pcfg (downText w (failures s + 1))) = Inl e
        \<longrightarrow> tick w cfg pcfg s
             = (after_failure s,
                snd (probe w) @ snd (doAlert w cfg pcfg (downText w (failures s + 1))),
                Some e))
   \<and> timer (fst (tick w cfg pcfg s)) = timer s"
proof -
  have logged: "completed (tick w cfg pcfg s)"
    if "alertTo pcfg = [] \<or> alertChannel pcfg \<noteq> ''rocketchat''"
    using doAlert_logged [OF that] by (intro tick_completes) simp
  from tick_completes [of w cfg pcfg s] logged tick_rejected [of w cfg pcfg s e]
    tick_back_thrown [of w s cfg pcfg e] tick_down_thrown [of w pcfg s cfg e]
    tick_timer [of w cfg pcfg s]
  show ?thesis by blast
qed

theorem tick_rejections_witness:
  "alertTo pcfg_logonly = []
   \<and> completed (tick (w_down 0) None pcfg_logonly init_state)
   \<and> snd (snd (tick w_down_500 ex_cfg_both (pcfg_full 600 ''gateway-restart'') two_failures))
       = Some (Error ''watchdog: Rocket.Chat send failed 500: Internal Server Error'')
   \<and> (\<exists>t. DoAlert t \<in> set (fst (snd (tick w_down_500 ex_cfg_both
                                         (pcfg_full 600 ''gateway-restart'') two_failures)))
          \<and> fst (doAlert w_down_500 ex_cfg_both (pcfg_full 600 ''gateway-restart'') t)
              = Inl (Error ''watchdog: Rocket.Chat send failed 500: Internal Server Error''))
   \<and> healthy w_up_500 \<and> lastStateOk two_failures = Some False
   \<and> fst (doAlert w_up_500 ex_cfg_both (pcfg_full 600 ''gateway-restart'') (okText w_up_500))
       = Inl (Error ''watchdog: Rocket.Chat send failed 500: Internal Server Error'')
   \<and> fst (tick w_up_500 ex_cfg_both (pcfg_full 600 ''gateway-restart'') two_failures)
       = two_failures"
proof -
  let ?P = "pcfg_full 600 ''gateway-restart''"
  let ?e = "Error ''watchdog: Rocket.Chat send failed 500: Internal Server Error''"
  have 1: "alertTo pcfg_logonly = []"
    by (simp add: alertTo_def pcfg_logonly_def pcfg_of_def)
  from tick_rejections [where pcfg = pcfg_logonly and w = "w_down 0" and cfg = None
      and s = init_state] 1
  have 2: "completed (tick (w_down 0) None pcfg_logonly init_state)" by blast
  have 3: "snd (snd (tick w_down_500 ex_cfg_both ?P two_failures)) = Some ?e"
    by code_simp
  from tick_rejections [where pcfg = ?P and w = w_down_500 and cfg = ex_cfg_both
      and s = two_failures and e = ?e] 3
  have 4: "\<exists>t. DoAlert t \<in> set (fst (snd (tick w_down_500 ex_cfg_both ?P two_failures)))
          \<and> fst (doAlert w_down_500 ex_cfg_both ?P t) = Inl ?e" by blast
  have 5: "healthy w_up_500" by code_simp
  have 6: "lastStateOk two_failures = Some False" by (simp add: two_failures_def)
  have 7: "fst (doAlert w_up_500 ex_cfg_both ?P (okText w_up_500)) = Inl ?e" by code_simp
  from tick_rejections [where pcfg = ?P and w = w_up_500 and cfg = ex_cfg_both
      and s = two_failures and e = ?e] 5 6 7
  have "tick w_up_500 ex_cfg_both ?P two_failures
          = (two_failures,
             snd (probe w_up_500) @ snd (doAlert w_up_500 ex_cfg_both ?P (okText w_up_500)),
             Some ?e)" by blast
  then have 8: "fst (tick w_up_500 ex_cfg_both ?P two_failures) = two_failures" by simp
  from 1 2 3 4 5 6 7 8 show ?thesis by blast
qed

text \<open>
  C4 as stated fails: the third consecutive failure with recovery enabled and due, and a
  chat server that answers 500. The delivery error leaves the tick, and the recovery that
  was due is not attempted.
\<close>

theorem alert_failure_escapes:
  "snd (snd (tick w_down_500 ex_cfg_both (pcfg_full 600 ''gateway-restart'') two_failures))
     = Some (Error ''watchdog: Rocket.Chat send failed 500: Internal Server Error'')
   \<and> recovery_due (pcfg_full 600 ''gateway-restart'') (after_failure two_failures)
        (Date_now w_down_500)
   \<and> \<not> attempted (fst (snd (tick w_down_500 ex_cfg_both (pcfg_full 600 ''gateway-restart'')
                             two_failures)))"
  by code_simp

section \<open>Recovery sequence\<close>

lemma runRecover_unknown:
  "act \<noteq> ''gateway-restart''
     \<Longrightarrow> runRecover w act = (Inl (Error (''unknown recover.action: '' @ act)), [])"
  by (simp add: runRecover_def)

lemma runRecover_restart:
  "restart_invoked (snd (runRecover w act)) \<Longrightarrow> act = ''gateway-restart''"
  by (auto simp add: runRecover_def restart_invoked_def split: if_splits)

lemma recovery_restart_action:
  assumes "restart_invoked (fst (snd (recovery w cfg pcfg s)))" and "recover pcfg = Some rc"
  shows "action rc = ''gateway-restart''"
  using assms runRecover_restart [of w "action rc"]
  by (auto simp add: recovery_def Let_def split_beta restart_invoked_def doAlert_restart
      split: sum.splits if_splits)

lemma tick_restart_action:
  assumes "restart_invoked (fst (snd (tick w cfg pcfg s)))" and "recover pcfg = Some rc"
  shows "action rc = ''gateway-restart''"
  using assms recovery_restart_action [of w cfg pcfg "after_failure s" rc] probe_restart [of w]
  by (cases rule: tick_cases [of w s cfg pcfg])
     (auto simp add: restart_invoked_def doAlert_restart)

lemma recovery_exec_failed:
  assumes "recovery_due pcfg s (Date_now w)" and "recover pcfg = Some rc"
    and "fst (doAlert w cfg pcfg (attemptingText (action rc) (failures s))) = Inr ()"
    and "fst (runRecover w (action rc)) = Inl err"
  shows "recovery w cfg pcfg s
           = (s\<lparr>lastRecoverAt := Date_now w\<rparr>,
              snd (doAlert w cfg pcfg (attemptingText (action rc) (failures s)))
                @ snd (runRecover w (action rc))
                @ snd (doAlert w cfg pcfg (recoveryFailedText err)),
              case fst (doAlert w cfg pcfg (recoveryFailedText err)) of
                Inl e \<Rightarrow> Some e
              | Inr _ \<Rightarrow> None)"
  using assms
  by (simp add: recovery_def recovery_due_def Let_def split_beta not_less
      split: option.splits sum.splits)

lemma tick_exec_failed:
  assumes "attempted (fst (snd (tick w cfg pcfg s)))" and "recover pcfg = Some rc"
    and "fst (doAlert w cfg pcfg (attemptingText (action rc) (failures s + 1))) = Inr ()"
    and "fst (runRecover w (action rc)) = Inl err"
  shows "DoAlert (recoveryFailedText err) \<in> set (fst (snd (tick w cfg pcfg s)))
         \<and> failures (fst (tick w cfg pcfg s)) = failures s + 1
         \<and> completed (tick w cfg pcfg s)
             = (fst (doAlert w cfg pcfg (recoveryFailedText err)) = Inr ())"
proof -
  from assms(1) have down: "\<not> healthy w"
    and due: "recovery_due pcfg (after_failure s) (Date_now w)"
    by (simp_all add: tick_attempted)
  from assms(3) have "fst (doAlert w cfg pcfg
      (attemptingText (action rc) (failures (after_failure s)))) = Inr ()"
    by (simp add: after_failure_def)
  from recovery_exec_failed [OF due assms(2) this assms(4)]
  have rec: "recovery w cfg pcfg (after_failure s)
           = (after_failure s\<lparr>lastRecoverAt := Date_now w\<rparr>,
              snd (doAlert w cfg pcfg (attemptingText (action rc) (failures (after_failure s))))
                @ snd (runRecover w (action rc))
                @ snd (doAlert w cfg pcfg (recoveryFailedText err)),
              case fst (doAlert w cfg pcfg (recoveryFailedText err)) of
                Inl e \<Rightarrow> Some e
              | Inr _ \<Rightarrow> None)" .
  from assms(1)
  have sent: "alert_due pcfg s
                \<longrightarrow> fst (doAlert w cfg pcfg (downText w (failures s + 1))) = Inr ()"
    by (simp add: tick_attempted)
  from down have count: "failures (fst (tick w cfg pcfg s)) = failures s + 1"
    by (simp add: tick_failures)
  from down sent
  have "DoAlert (recoveryFailedText err) \<in> set (fst (snd (tick w cfg pcfg s)))
        \<and> completed (tick w cfg pcfg s)
            = (fst (doAlert w cfg pcfg (recoveryFailedText err)) = Inr ())"
    by (cases rule: tick_cases [of w s cfg pcfg])
       (auto simp add: rec completed_def doAlert_head split: sum.splits)
  with count show ?thesis by blast
qed

text \<open>
  C8, as amended. A tick that starts the recovery sequence records the attempt time in
  \<open>lastRecoverAt\<close> whatever the alerts and the executor then do, so the time is recorded
  in every tick that runs the restart command, and also when the executor is never
  reached. An unrecognised action fails with the error "unknown recover.action" without
  any process being run. When the executor fails, a follow-up alert with the error message
  is raised and the failure counter is that of the probe outcome alone; the tick
  completes exactly when that follow-up alert is delivered or logged.
\<close>

theorem recovery_sequence:
  "(attempted (fst (snd (tick w cfg pcfg s)))
      \<longrightarrow> lastRecoverAt (fst (tick w cfg pcfg s)) = Date_now w)
   \<and> (restart_invoked (fst (snd (tick w cfg pcfg s)))
      \<longrightarrow> attempted (fst (snd (tick w cfg pcfg s)))
          \<and> lastRecoverAt (fst (tick w cfg pcfg s)) = Date_now w)
   \<and> (act \<noteq> ''gateway-restart''
      \<longrightarrow> runRecover w act = (Inl (Error (''unknown recover.action: '' @ act)), []))
   \<and> (recover pcfg = Some rc \<and> action rc \<noteq> ''gateway-restart''
      \<longrightarrow> \<not> restart_invoked (fst (snd (tick w cfg pcfg s))))
   \<and> (attempted (fst (snd (tick w cfg pcfg s))) \<and> recover pcfg = Some rc
        \<and> fst (doAlert w cfg pcfg (attemptingText (action rc) (failures s + 1))) = Inr ()
        \<and> fst (runRecover w (action rc)) = Inl err
      \<longrightarrow> DoAlert (recoveryFailedText err) \<in> set (fst (snd (tick w cfg pcfg s)))
          \<and> failures (fst (tick w cfg pcfg s)) = failures s + 1
          \<and> completed (tick w cfg pcfg s)
              = (fst (doAlert w cfg pcfg (recoveryFailedText err)) = Inr ()))"
proof -
  have 1: "lastRecoverAt (fst (tick w cfg pcfg s)) = Date_now w"
    if "attempted (fst (snd (tick w cfg pcfg s)))"
    using that by (simp add: tick_lastRecoverAt)
  from 1 tick_restart [of w cfg pcfg s] runRecover_unknown [of act w]
    tick_restart_action [of w cfg pcfg s rc] tick_exec_failed [of w cfg pcfg s rc err]
  show ?thesis by blast
qed

theorem recovery_sequence_witness:
  "attempted (fst (snd (tick (w_down 1767225720000) None (pcfg_recover 0 ''reboot'') two_failures)))
   \<and> lastRecoverAt (fst (tick (w_down 1767225720000) None (pcfg_recover 0 ''reboot'')
                            two_failures)) = 1767225720000
   \<and> ''reboot'' \<noteq> ''gateway-restart''
   \<and> runRecover (w_down 1767225720000) ''reboot''
       = (Inl (Error ''unknown recover.action: reboot''), [])
   \<and> \<not> restart_invoked (fst (snd (tick (w_down 1767225720000) None (pcfg_recover 0 ''reboot'')
                                     two_failures)))
   \<and> DoAlert ''watchdog: recovery failed: unknown recover.action: reboot''
        \<in> set (fst (snd (tick (w_down 1767225720000) None (pcfg_recover 0 ''reboot'')
                           two_failures)))
   \<and> failures (fst (tick (w_down 1767225720000) None (pcfg_recover 0 ''reboot'') two_failures)) = 3
   \<and> completed (tick (w_down 1767225720000) None (pcfg_recover 0 ''reboot'') two_failures)
   \<and> restart_invoked (fst (snd (tick (w_down 1767225720000) None
                                   (pcfg_recover 0 ''gateway-restart'') two_failures)))
   \<and> lastRecoverAt (fst (tick (w_down 1767225720000) None (pcfg_recover 0 ''gateway-restart'')
                            two_failures)) = 1767225720000"
proof -
  let ?w = "w_down 1767225720000"
  let ?P = "pcfg_recover 0 ''reboot''"
  let ?Q = "pcfg_recover 0 ''gateway-restart''"
  let ?rc = "\<lparr>recover_enabled = True, action = ''reboot''\<rparr>"
  let ?err = "Error ''unknown recover.action: reboot''"
  have 1: "attempted (fst (snd (tick ?w None ?P two_failures)))" by code_simp
  have 2: "recover ?P = Some ?rc" by (simp add: pcfg_recover_def pcfg_of_def)
  have 3: "action ?rc \<noteq> ''gateway-restart''" by simp
  have 4: "fst (doAlert ?w None ?P (attemptingText (action ?rc) (failures two_failures + 1)))
             = Inr ()"
    by (simp add: doAlert_def alertTo_def pcfg_recover_def pcfg_of_def)
  have 5: "fst (doAlert ?w None ?P (recoveryFailedText ?err)) = Inr ()"
    by (simp add: doAlert_def alertTo_def pcfg_recover_def pcfg_of_def)
  have 6: "Date_now ?w = 1767225720000" by (simp add: w_down_def ex_world_def)
  have 7: "failures two_failures + 1 = 3" by (simp add: two_failures_def)
  have 8: "recoveryFailedText ?err = ''watchdog: recovery failed: unknown recover.action: reboot''"
    by (simp add: recoveryFailedText_def)
  have 9: "restart_invoked (fst (snd (tick ?w None ?Q two_failures)))" by code_simp
  note thm1 = recovery_sequence [where w = ?w and cfg = None and pcfg = ?P and s = two_failures
      and act = "''reboot''" and rc = ?rc and err = ?err]
  from thm1 3 have a: "runRecover ?w ''reboot'' = (Inl ?err, [])" by simp
  then have b: "fst (runRecover ?w (action ?rc)) = Inl ?err" by simp
  from thm1 1 have c: "lastRecoverAt (fst (tick ?w None ?P two_failures)) = 1767225720000"
    unfolding 6 by blast
  from thm1 2 3 have d: "\<not> restart_invoked (fst (snd (tick ?w None ?P two_failures)))"
    by blast
  from thm1 1 2 4 b 5
  have e: "DoAlert (recoveryFailedText ?err) \<in> set (fst (snd (tick ?w None ?P two_failures)))
         \<and> failures (fst (tick ?w None ?P two_failures)) = failures two_failures + 1
         \<and> completed (tick ?w None ?P two_failures)"
    by blast
  from recovery_sequence [where w = ?w and cfg = None and pcfg = ?Q and s = two_failures] 9
  have f: "lastRecoverAt (fst (tick ?w None ?Q two_failures)) = 1767225720000"
    unfolding 6 by blast
  from 1 c 3 a d e 9 f show ?thesis unfolding 7 8 by simp
qed

text \<open>
  C8 as stated fails: the restart command cannot be spawned, the follow-up alert is
  raised, its delivery fails, and the tick is rejected instead of completing.
\<close>

theorem recovery_failure_alert_escapes:
  "attempted (fst (snd (tick w_flaky ex_cfg_both (pcfg_full 600 ''gateway-restart'') two_failures)))
   \<and> fst (runRecover w_flaky ''gateway-restart'') = Inl (Error ''spawn clawdbot ENOENT'')
   \<and> DoAlert ''watchdog: recovery failed: spawn clawdbot ENOENT''
        \<in> set (fst (snd (tick w_flaky ex_cfg_both (pcfg_full 600 ''gateway-restart'')
                           two_failures)))
   \<and> snd (snd (tick w_flaky ex_cfg_both (pcfg_full 600 ''gateway-restart'') two_failures))
       = Some (Error ''fetch failed'')"
  by code_simp

end
